theory Spec2Isabelle
  imports Main "HOL-Library.Word"
begin

section \<open>Protocol values\<close>

text \<open>
  The wire types come from the X protocol binding (package xproto), which is an external
  library. Identifiers and timestamps are 32-bit unsigned integers there, coordinates are
  16-bit signed integers. Each event value carries the fields that the event loop of
  \<^verbatim>\<open>xevent/eventloop.go\<close> reads or writes.
\<close>

type_synonym Window = "32 word"
type_synonym Timestamp = "32 word"
type_synonym Drawable = "32 word"

text \<open>
  Key press, key release, button press, button release and motion notify share one
  layout. The loop reads \<^verbatim>\<open>Time\<close>, \<^verbatim>\<open>Root\<close> and \<^verbatim>\<open>Event\<close>
  and copies the four coordinates.
\<close>

record input_event =
  Time :: Timestamp
  Root :: Window
  Event :: Window
  RootX :: "16 word"
  RootY :: "16 word"
  EventX :: "16 word"
  EventY :: "16 word"

text \<open>
  One constructor per case of the type switch in \<^verbatim>\<open>processEventQueue\<close>, in the order
  of the source, with the fields the case reads (named in the comment of each line).
  \<^verbatim>\<open>UnsupportedEvent\<close> is any other wire type; it carries the type name that the
  \<^verbatim>\<open>default\<close> case prints.
\<close>

datatype xevent =
    KeyPressEvent input_event
  | KeyReleaseEvent input_event
  | ButtonPressEvent input_event
  | ButtonReleaseEvent input_event
  | MotionNotifyEvent input_event
  | EnterNotifyEvent Timestamp Window         \<comment> \<open>Time, Event\<close>
  | LeaveNotifyEvent Timestamp Window         \<comment> \<open>Time, Event\<close>
  | FocusInEvent Window                       \<comment> \<open>Event\<close>
  | FocusOutEvent Window                      \<comment> \<open>Event\<close>
  | KeymapNotifyEvent
  | ExposeEvent Window                        \<comment> \<open>Window\<close>
  | GraphicsExposureEvent Drawable            \<comment> \<open>Drawable\<close>
  | NoExposureEvent Drawable                  \<comment> \<open>Drawable\<close>
  | VisibilityNotifyEvent Window              \<comment> \<open>Window\<close>
  | CreateNotifyEvent Window                  \<comment> \<open>Window\<close>
  | DestroyNotifyEvent Window                 \<comment> \<open>Window\<close>
  | UnmapNotifyEvent Window                   \<comment> \<open>Window\<close>
  | MapNotifyEvent Window                     \<comment> \<open>Window\<close>
  | MapRequestEvent Window Window             \<comment> \<open>Window, Parent\<close>
  | ReparentNotifyEvent Window                \<comment> \<open>Window\<close>
  | ConfigureNotifyEvent Window               \<comment> \<open>Window\<close>
  | ConfigureRequestEvent Window Window       \<comment> \<open>Window, Parent\<close>
  | GravityNotifyEvent Window                 \<comment> \<open>Window\<close>
  | ResizeRequestEvent Window                 \<comment> \<open>Window\<close>
  | CirculateNotifyEvent Window               \<comment> \<open>Window\<close>
  | CirculateRequestEvent Window              \<comment> \<open>Window\<close>
  | PropertyNotifyEvent Timestamp Window      \<comment> \<open>Time, Window\<close>
  | SelectionClearEvent Timestamp Window      \<comment> \<open>Time, Owner\<close>
  | SelectionRequestEvent Timestamp Window    \<comment> \<open>Time, Requestor\<close>
  | SelectionNotifyEvent Timestamp Window     \<comment> \<open>Time, Requestor\<close>
  | ColormapNotifyEvent Window                \<comment> \<open>Window\<close>
  | ClientMessageEvent Window                 \<comment> \<open>Window\<close>
  | MappingNotifyEvent
  | UnsupportedEvent string

text \<open>A protocol error of the transport; the loop only hands it on.\<close>

datatype xerror = XError nat

text \<open>
  Modelled from the spec: the event kind constants (\<^verbatim>\<open>KeyPress\<close>, ...,
  \<^verbatim>\<open>MappingNotify\<close>) are declared in another file of package xevent, outside the
  file of the event loop. The spec describes them as a fixed, closed set of enumerated tags, one
  per supported protocol event type.
\<close>

datatype evkind =
    KeyPress | KeyRelease | ButtonPress | ButtonRelease | MotionNotify
  | EnterNotify | LeaveNotify | FocusIn | FocusOut | KeymapNotify
  | Expose | GraphicsExposure | NoExposure | VisibilityNotify
  | CreateNotify | DestroyNotify | UnmapNotify | MapNotify | MapRequest
  | ReparentNotify | ConfigureNotify | ConfigureRequest | GravityNotify
  | ResizeRequest | CirculateNotify | CirculateRequest | PropertyNotify
  | SelectionClear | SelectionRequest | SelectionNotify | ColormapNotify
  | ClientMessage | MappingNotify

section \<open>The state of one connection\<close>

text \<open>
  A queue entry holds an event and an error, either of which may be absent (nil in the
  source): the loop tests \<^verbatim>\<open>err != nil\<close> first and \<^verbatim>\<open>ev == nil\<close> second.
\<close>

record EventOrError =
  ee_Event :: "xevent option"
  ee_Err :: "xerror option"

text \<open>
  Everything the loop does to its surroundings is written to a trace, in program order:
  a send on the ping channel, the removal of the head entry, the removal of an entry at
  an index, a call of the error handler, a call of one registered callback (its
  identity, the kind and target it was found under, and the event it receives), and a
  line of the logger.
\<close>

datatype action =
    Ping
  | Dequeued EventOrError
  | DequeuedAt nat EventOrError
  | ErrorHandled xerror
  | Called nat evkind Window xevent
  | Logged string

text \<open>
  The connection is the list of results that its next fetches will return, each a pair
  of an optional event and an optional error; once the list is used up a non-blocking
  fetch returns neither and a blocking fetch never returns. Callbacks are user code:
  the registry maps a kind and a target to the identities of the callbacks registered
  there, in registration order, and a call is recorded in the trace.
\<close>

record xutil =
  Conn :: "(xevent option \<times> xerror option) list"
  Evqueue :: "EventOrError list"
  Quit :: bool
  Callbacks :: "evkind \<Rightarrow> Window \<Rightarrow> nat list"
  KeyRedirect :: Window
  LastTime :: Timestamp
  Trace :: "action list"

text \<open>
  The ways a run ends other than by returning: the logger's \<^verbatim>\<open>Fatal\<close> (it prints
  and exits the process), a blocking fetch that never returns, and a Go run-time panic
  on an index out of range.
\<close>

datatype failure = Fatal string | Blocked | Panic

type_synonym outcome = "(failure \<times> xutil) + xutil"

section \<open>Collaborators of the loop\<close>

text \<open>
  Modelled from the spec: \<^verbatim>\<open>WaitForEvent\<close> and \<^verbatim>\<open>PollForEvent\<close> of the connection
  (section 6: a blocking fetch, and a non-blocking fetch where nil/nil means that nothing
  is available).
\<close>

definition WaitForEvent :: "xutil \<Rightarrow> ((xevent option \<times> xerror option) \<times> xutil) option" where
  "WaitForEvent xu =
     (case Conn xu of [] \<Rightarrow> None | r # c \<Rightarrow> Some (r, xu\<lparr>Conn := c\<rparr>))"

definition PollForEvent :: "xutil \<Rightarrow> (xevent option \<times> xerror option) \<times> xutil" where
  "PollForEvent xu =
     (case Conn xu of [] \<Rightarrow> ((None, None), xu) | r # c \<Rightarrow> (r, xu\<lparr>Conn := c\<rparr>))"

text \<open>
  Modelled from the spec: \<^verbatim>\<open>Sync\<close> (section 4.4 a: a synchronization round-trip,
  after which the events generated so far can be fetched). It changes nothing that the
  state records.
\<close>

definition Sync :: "xutil \<Rightarrow> xutil" where
  "Sync xu = xu"

text \<open>
  Modelled from the spec: the queue operations of section 4.1, whose code is in another
  file of package xevent. \<^verbatim>\<open>Enqueue\<close> appends to the tail; \<^verbatim>\<open>Empty\<close> is true iff the
  length is zero; \<^verbatim>\<open>Dequeue\<close> removes and returns the head and fails on an empty
  queue; \<^verbatim>\<open>Peek\<close> is the ordered view of the entries; \<^verbatim>\<open>DequeueAt\<close> removes and
  discards the entry at an index.
\<close>

definition Enqueue :: "xutil \<Rightarrow> xevent option \<Rightarrow> xerror option \<Rightarrow> xutil" where
  "Enqueue xu ev err = xu\<lparr>Evqueue := Evqueue xu @ [\<lparr>ee_Event = ev, ee_Err = err\<rparr>]\<rparr>"

definition Empty :: "xutil \<Rightarrow> bool" where
  "Empty xu = (length (Evqueue xu) = 0)"

definition Dequeue :: "xutil \<Rightarrow> (EventOrError \<times> xutil) option" where
  "Dequeue xu =
     (case Evqueue xu of
        [] \<Rightarrow> None
      | ee # q \<Rightarrow> Some (ee, xu\<lparr>Evqueue := q, Trace := Trace xu @ [Dequeued ee]\<rparr>))"

definition Peek :: "xutil \<Rightarrow> EventOrError list" where
  "Peek xu = Evqueue xu"

definition DequeueAt :: "xutil \<Rightarrow> nat \<Rightarrow> xutil option" where
  "DequeueAt xu i =
     (if i < length (Evqueue xu)
      then Some (xu\<lparr>Evqueue := take i (Evqueue xu) @ drop (Suc i) (Evqueue xu),
                    Trace := Trace xu @ [DequeuedAt i (Evqueue xu ! i)]\<rparr>)
      else None)"

text \<open>
  Modelled from the spec: the shutdown flag, the key redirection lookup, the timestamp
  of the connection, the error handler and the callback lookup (section 6). Their code
  is in other files of the repository.
\<close>

definition Quitting :: "xutil \<Rightarrow> bool" where
  "Quitting xu = Quit xu"

definition RedirectKeyGet :: "xutil \<Rightarrow> Window" where
  "RedirectKeyGet xu = KeyRedirect xu"

definition TimeSet :: "xutil \<Rightarrow> Timestamp \<Rightarrow> xutil" where
  "TimeSet xu t = xu\<lparr>LastTime := t\<rparr>"

definition ErrorHandler :: "xutil \<Rightarrow> xerror \<Rightarrow> xutil" where
  "ErrorHandler xu err = xu\<lparr>Trace := Trace xu @ [ErrorHandled err]\<rparr>"

definition runCallbacks :: "xutil \<Rightarrow> xevent \<Rightarrow> evkind \<Rightarrow> Window \<Rightarrow> xutil" where
  "runCallbacks xu e k win =
     xu\<lparr>Trace := Trace xu @ map (\<lambda>cb. Called cb k win e) (Callbacks xu k win)\<rparr>"

definition sendPing :: "xutil \<Rightarrow> xutil" where
  "sendPing xu = xu\<lparr>Trace := Trace xu @ [Ping]\<rparr>"

definition Printf :: "xutil \<Rightarrow> string \<Rightarrow> xutil" where
  "Printf xu msg = xu\<lparr>Trace := Trace xu @ [Logged msg]\<rparr>"

section \<open>Read\<close>

text \<open>The loop of \<^verbatim>\<open>Read\<close>: fetch without blocking and queue up until nothing is left.\<close>

function ReadLoop :: "xutil \<Rightarrow> xutil" where
  "ReadLoop xu =
     (case PollForEvent xu of
        ((ev, err), xu') \<Rightarrow>
          if ev = None \<and> err = None then xu' else ReadLoop (Enqueue xu' ev err))"
  by pat_completeness auto
termination
  by (relation "measure (\<lambda>xu. length (Conn xu))")
     (auto simp: PollForEvent_def Enqueue_def split: list.splits)

declare ReadLoop.simps [simp del]

definition Read :: "xutil \<Rightarrow> bool \<Rightarrow> outcome" where
  "Read xu block =
     (if block then
        (case WaitForEvent xu of
           None \<Rightarrow> Inl (Blocked, xu)
         | Some ((ev, err), xu') \<Rightarrow>
             if ev = None \<and> err = None
             then Inl (Fatal ''BUG: Could not read an event or an error.'', xu')
             else Inr (ReadLoop (Enqueue xu' ev err)))
      else Inr (ReadLoop xu))"

text \<open>The size that every loop of the file decreases: what is queued and what is to come.\<close>

definition pending :: "xutil \<Rightarrow> nat" where
  "pending xu = length (Evqueue xu) + length (Conn xu)"

lemma ReadLoop_pending: "pending (ReadLoop xu) \<le> pending xu"
proof (induction xu rule: ReadLoop.induct)
  case (1 xu)
  show ?case
  proof (cases "Conn xu")
    case Nil
    then show ?thesis
      by (subst ReadLoop.simps) (simp add: PollForEvent_def)
  next
    case (Cons r c)
    obtain ev err where r: "r = (ev, err)" by (cases r)
    show ?thesis
    proof (cases "ev = None \<and> err = None")
      case True
      with Cons r show ?thesis
        by (subst ReadLoop.simps) (simp add: PollForEvent_def pending_def)
    next
      case False
      have p: "PollForEvent xu = ((ev, err), xu\<lparr>Conn := c\<rparr>)"
        using Cons r by (simp add: PollForEvent_def)
      have "pending (ReadLoop (Enqueue (xu\<lparr>Conn := c\<rparr>) ev err))
              \<le> pending (Enqueue (xu\<lparr>Conn := c\<rparr>) ev err)"
        using "1.IH" [OF p [symmetric] refl False] .
      also have "\<dots> = pending xu"
        using Cons by (simp add: pending_def Enqueue_def)
      finally show ?thesis
        using p False by (subst ReadLoop.simps) auto
    qed
  qed
qed

lemma Read_nonblocking: "Read xu False = Inr (ReadLoop xu)"
  by (simp add: Read_def)

section \<open>Motion coalescing\<close>

text \<open>The type assertion \<^verbatim>\<open>ee.Event.(xproto.MotionNotifyEvent)\<close>.\<close>

fun asMotionNotify :: "xevent option \<Rightarrow> input_event option" where
  "asMotionNotify (Some (MotionNotifyEvent mn)) = Some mn"
| "asMotionNotify _ = None"

text \<open>
  The \<^verbatim>\<open>range\<close> loop over \<^verbatim>\<open>Peek(xu)\<close>: the index and payload of the first entry
  without an error whose event is a motion notify for the window \<open>w\<close>, counting from \<open>i\<close>.
\<close>

fun scanPeek :: "Window \<Rightarrow> nat \<Rightarrow> EventOrError list \<Rightarrow> (nat \<times> input_event) option" where
  "scanPeek w i [] = None"
| "scanPeek w i (ee # q) =
     (if ee_Err ee \<noteq> None then scanPeek w (Suc i) q
      else (case asMotionNotify (ee_Event ee) of
              Some mn \<Rightarrow> if Event mn = w then Some (i, mn) else scanPeek w (Suc i) q
            | None \<Rightarrow> scanPeek w (Suc i) q))"

lemma scanPeek_bound: "scanPeek w i q = Some (j, mn) \<Longrightarrow> i \<le> j \<and> j < i + length q"
  by (induction q arbitrary: i) (fastforce split: if_splits option.splits)+

text \<open>
  The outer \<^verbatim>\<open>for\<close> loop of the motion case: synchronize, read without blocking, scan,
  and when an entry was found remember it in \<^verbatim>\<open>laste\<close>, remove it and start again.
\<close>

function coalesce :: "Window \<Rightarrow> input_event \<Rightarrow> xutil \<Rightarrow> (failure \<times> xutil) + (input_event \<times> xutil)" where
  "coalesce w laste xu =
     (case Read (Sync xu) False of
        Inl f \<Rightarrow> Inl f
      | Inr xu1 \<Rightarrow>
          (case scanPeek w 0 (Peek xu1) of
             None \<Rightarrow> Inr (laste, xu1)
           | Some (i, mn) \<Rightarrow>
               (case DequeueAt xu1 i of
                  None \<Rightarrow> Inl (Panic, xu1)
                | Some xu2 \<Rightarrow> coalesce w mn xu2)))"
  by pat_completeness auto
termination
proof (relation "measure (\<lambda>(w, laste, xu). pending xu)", goal_cases)
  case 1
  show ?case by simp
next
  case (2 w laste xu xu1 x i mn xu2)
  have "xu1 = ReadLoop xu"
    using 2(1) by (simp add: Read_nonblocking Sync_def)
  then have le: "pending xu1 \<le> pending xu"
    by (simp add: ReadLoop_pending)
  have "i < length (Evqueue xu1)"
    using scanPeek_bound [of w 0 "Peek xu1" i mn] 2(2,3) by (simp add: Peek_def)
  then have "pending xu2 < pending xu1"
    using 2(4) by (auto simp: DequeueAt_def pending_def split: if_splits)
  with le show ?case by simp
qed

declare coalesce.simps [simp del]

text \<open>The zero value of \<^verbatim>\<open>var laste xproto.MotionNotifyEvent\<close>.\<close>

definition zeroMotion :: input_event where
  "zeroMotion = \<lparr>Time = 0, Root = 0, Event = 0, RootX = 0, RootY = 0, EventX = 0, EventY = 0\<rparr>"

section \<open>What the loops compute\<close>

text \<open>
  A fetch result that \<^verbatim>\<open>Read\<close> queues up (one with an event or an error), and the
  entry that \<^verbatim>\<open>Enqueue\<close> makes of it.
\<close>

definition isEntry :: "xevent option \<times> xerror option \<Rightarrow> bool" where
  "isEntry r = (\<not> (fst r = None \<and> snd r = None))"

definition toEntry :: "xevent option \<times> xerror option \<Rightarrow> EventOrError" where
  "toEntry r = \<lparr>ee_Event = fst r, ee_Err = snd r\<rparr>"

lemma ReadLoop_closed:
  "ReadLoop xu = xu\<lparr>Conn := drop 1 (dropWhile isEntry (Conn xu)),
                     Evqueue := Evqueue xu @ map toEntry (takeWhile isEntry (Conn xu))\<rparr>"
proof (induction xu rule: ReadLoop.induct)
  case (1 xu)
  show ?case
  proof (cases "Conn xu")
    case Nil
    then show ?thesis
      by (subst ReadLoop.simps) (simp add: PollForEvent_def)
  next
    case (Cons r c)
    obtain ev err where r: "r = (ev, err)" by (cases r)
    show ?thesis
    proof (cases "ev = None \<and> err = None")
      case True
      with Cons r show ?thesis
        by (subst ReadLoop.simps) (simp add: PollForEvent_def isEntry_def)
    next
      case False
      have p: "PollForEvent xu = ((ev, err), xu\<lparr>Conn := c\<rparr>)"
        using Cons r by (simp add: PollForEvent_def)
      have ie: "isEntry (ev, err)" using False by (simp add: isEntry_def)
      show ?thesis
        using p False Cons r ie "1.IH" [OF p [symmetric] refl False]
        by (subst ReadLoop.simps) (auto simp: Enqueue_def toEntry_def)
    qed
  qed
qed

text \<open>
  The test of the scan: an entry without an error whose event is a motion notify for
  the window \<open>w\<close>.
\<close>

definition matches :: "Window \<Rightarrow> EventOrError \<Rightarrow> bool" where
  "matches w ee =
     (ee_Err ee = None \<and>
      (case asMotionNotify (ee_Event ee) of Some mn \<Rightarrow> Event mn = w | None \<Rightarrow> False))"

lemma scanPeek_None: "scanPeek w i q = None \<longleftrightarrow> filter (matches w) q = []"
  by (induction q arbitrary: i) (auto simp: matches_def split: option.splits)

lemma scanPeek_Some:
  "scanPeek w i q = Some (j, mn) \<Longrightarrow>
     \<exists>pre ee post. q = pre @ ee # post \<and> filter (matches w) pre = [] \<and> matches w ee \<and>
        asMotionNotify (ee_Event ee) = Some mn \<and> j = i + length pre"
proof (induction q arbitrary: i)
  case Nil
  then show ?case by simp
next
  case (Cons a q)
  show ?case
  proof (cases "matches w a")
    case True
    with Cons.prems have "j = i \<and> asMotionNotify (ee_Event a) = Some mn"
      by (auto simp: matches_def split: option.splits)
    with True show ?thesis by (intro exI [of _ "[]"] exI [of _ a] exI [of _ q]) simp
  next
    case False
    with Cons.prems have "scanPeek w (Suc i) q = Some (j, mn)"
      by (auto simp: matches_def split: option.splits if_splits)
    from Cons.IH [OF this] obtain pre ee post where
      "q = pre @ ee # post" "filter (matches w) pre = []" "matches w ee"
      "asMotionNotify (ee_Event ee) = Some mn" "j = Suc i + length pre" by blast
    with False show ?thesis
      by (intro exI [of _ "a # pre"] exI [of _ ee] exI [of _ post]) simp
  qed
qed


text \<open>The entries that reading the fetch results \<open>cs\<close> appends to the queue.\<close>

definition entriesOf :: "(xevent option \<times> xerror option) list \<Rightarrow> EventOrError list" where
  "entriesOf cs = map toEntry (filter isEntry cs)"

lemma entriesOf_append: "entriesOf (a @ b) = entriesOf a @ entriesOf b"
  by (simp add: entriesOf_def)

lemma ReadLoop_split:
  "\<exists>cs. Conn xu = cs @ Conn (ReadLoop xu) \<and>
        ReadLoop xu = xu\<lparr>Conn := Conn (ReadLoop xu), Evqueue := Evqueue xu @ entriesOf cs\<rparr>"
proof -
  let ?cs = "takeWhile isEntry (Conn xu) @ take 1 (dropWhile isEntry (Conn xu))"
  have "filter isEntry (take 1 (dropWhile isEntry c)) = []" for c
    by (induction c) auto
  then have nil: "filter isEntry (take 1 (dropWhile isEntry (Conn xu))) = []" .
  have "Conn xu = ?cs @ drop 1 (dropWhile isEntry (Conn xu))"
    by (simp del: One_nat_def)
  moreover have "filter isEntry (takeWhile isEntry c) = takeWhile isEntry c" for c
    by (induction c) auto
  then have "entriesOf ?cs = map toEntry (takeWhile isEntry (Conn xu))"
    using nil by (simp add: entriesOf_def del: One_nat_def)
  ultimately show ?thesis
    by (intro exI [of _ ?cs]) (simp add: ReadLoop_closed del: One_nat_def)
qed

text \<open>The entry that a trace action removed at an index, and the payload the scan remembers.\<close>

fun removedAt :: "action \<Rightarrow> EventOrError option" where
  "removedAt (DequeuedAt i ee) = Some ee"
| "removedAt _ = None"

definition lastMotion :: "input_event \<Rightarrow> EventOrError \<Rightarrow> input_event" where
  "lastMotion l ee = (case asMotionNotify (ee_Event ee) of Some mn \<Rightarrow> mn | None \<Rightarrow> l)"

lemma coalesce_result:
  "\<exists>l' xu' cs rm. coalesce w l xu = Inr (l', xu') \<and>
     Conn xu = cs @ Conn xu' \<and>
     Evqueue xu' = filter (\<lambda>ee. \<not> matches w ee) (Evqueue xu @ entriesOf cs) \<and>
     l' = foldl lastMotion l (filter (matches w) (Evqueue xu @ entriesOf cs)) \<and>
     Trace xu' = Trace xu @ rm \<and>
     map removedAt rm = map Some (filter (matches w) (Evqueue xu @ entriesOf cs)) \<and>
     xu' = xu\<lparr>Conn := Conn xu', Evqueue := Evqueue xu', Trace := Trace xu'\<rparr>"
proof (induction w l xu rule: coalesce.induct)
  case (1 w laste xu)
  let ?xu1 = "ReadLoop xu"
  obtain cs1 where cs1: "Conn xu = cs1 @ Conn ?xu1"
    and xu1: "?xu1 = xu\<lparr>Conn := Conn ?xu1, Evqueue := Evqueue xu @ entriesOf cs1\<rparr>"
    using ReadLoop_split [of xu] by blast
  have q1: "Evqueue ?xu1 = Evqueue xu @ entriesOf cs1"
    by (subst xu1) simp
  have t1: "Trace ?xu1 = Trace xu"
    by (subst xu1) simp
  have rd: "Read (Sync xu) False = Inr ?xu1"
    by (simp add: Read_nonblocking Sync_def)
  show ?case
  proof (cases "scanPeek w 0 (Peek ?xu1)")
    case None
    then have nomatch: "filter (matches w) (Evqueue xu @ entriesOf cs1) = []"
      by (simp add: scanPeek_None Peek_def q1)
    then have keep: "filter (\<lambda>ee. \<not> matches w ee) (Evqueue xu @ entriesOf cs1)
                       = Evqueue xu @ entriesOf cs1"
      by (simp add: filter_empty_conv)
    have res: "coalesce w laste xu = Inr (laste, ?xu1)"
      using rd None by (subst coalesce.simps) simp
    show ?thesis
      apply (rule exI [of _ laste], rule exI [of _ ?xu1], rule exI [of _ cs1], rule exI [of _ "[]"])
      using res cs1 q1 t1 nomatch keep xu1 by simp
  next
    case (Some r)
    obtain i mn where r: "r = (i, mn)" by (cases r)
    from Some r have sc: "scanPeek w 0 (Evqueue ?xu1) = Some (i, mn)"
      by (simp add: Peek_def)
    from scanPeek_Some [OF sc] obtain pre ee post where
      split: "Evqueue ?xu1 = pre @ ee # post" and pre: "filter (matches w) pre = []"
      and ee: "matches w ee" and mn: "asMotionNotify (ee_Event ee) = Some mn"
      and i: "i = length pre" by auto
    define xu2 where "xu2 = ?xu1\<lparr>Evqueue := pre @ post, Trace := Trace ?xu1 @ [DequeuedAt i ee]\<rparr>"
    have dq: "DequeueAt ?xu1 i = Some xu2"
      using split i by (simp add: DequeueAt_def xu2_def)
    from "1.IH" [OF rd Some [unfolded r] refl dq]
    obtain l' xu' cs2 rm where
      c2: "coalesce w mn xu2 = Inr (l', xu')" and
      conn2: "Conn xu2 = cs2 @ Conn xu'" and
      q2: "Evqueue xu' = filter (\<lambda>ee. \<not> matches w ee) (Evqueue xu2 @ entriesOf cs2)" and
      l2: "l' = foldl lastMotion mn (filter (matches w) (Evqueue xu2 @ entriesOf cs2))" and
      t2: "Trace xu' = Trace xu2 @ rm" and
      rm2: "map removedAt rm = map Some (filter (matches w) (Evqueue xu2 @ entriesOf cs2))" and
      fr2: "xu' = xu2\<lparr>Conn := Conn xu', Evqueue := Evqueue xu', Trace := Trace xu'\<rparr>"
      by blast
    have res: "coalesce w laste xu = Inr (l', xu')"
      using rd sc dq c2 by (subst coalesce.simps) (simp add: Peek_def)
    have conn: "Conn xu = (cs1 @ cs2) @ Conn xu'"
      using cs1 conn2 by (simp add: xu2_def)
    have whole: "Evqueue xu @ entriesOf (cs1 @ cs2) = pre @ ee # post @ entriesOf cs2"
      using q1 split by (simp add: entriesOf_append)
    have e2: "Evqueue xu2 = pre @ post" by (simp add: xu2_def)
    have pre': "filter (\<lambda>ee. \<not> matches w ee) pre = pre"
      using pre by (simp add: filter_empty_conv)
    have A: "Evqueue xu' = filter (\<lambda>ee. \<not> matches w ee) (Evqueue xu @ entriesOf (cs1 @ cs2))"
      using q2 ee by (simp add: whole e2)
    have B: "l' = foldl lastMotion laste (filter (matches w) (Evqueue xu @ entriesOf (cs1 @ cs2)))"
      using l2 ee pre mn by (simp add: whole e2 lastMotion_def)
    have C: "Trace xu' = Trace xu @ (DequeuedAt i ee # rm)"
      using t2 t1 by (simp add: xu2_def)
    have D: "map removedAt (DequeuedAt i ee # rm)
               = map Some (filter (matches w) (Evqueue xu @ entriesOf (cs1 @ cs2)))"
      using rm2 ee pre by (simp add: whole e2)
    have E: "xu' = xu\<lparr>Conn := Conn xu', Evqueue := Evqueue xu', Trace := Trace xu'\<rparr>"
      by (subst fr2, subst xu2_def, subst xu1) simp
    show ?thesis
      apply (rule exI [of _ l'], rule exI [of _ xu'], rule exI [of _ "cs1 @ cs2"],
             rule exI [of _ "DequeuedAt i ee # rm"])
      using res conn A B C D E by blast
  qed
qed

section \<open>The dispatcher\<close>

text \<open>
  The type switch of \<^verbatim>\<open>processEventQueue\<close>, one equation per case in the order of the
  source. The constant \<^verbatim>\<open>NoWindow\<close> is declared in another file of package xevent; it
  is the parameter \<open>nw\<close>.
\<close>

fun dispatchEvent :: "Window \<Rightarrow> xutil \<Rightarrow> xevent \<Rightarrow> outcome" where
  "dispatchEvent nw xu (KeyPressEvent event) =
     (let wid = RedirectKeyGet xu;
          e = (if 0 < wid then event\<lparr>Event := wid\<rparr> else event);
          xu1 = TimeSet xu (Time e)
      in Inr (runCallbacks xu1 (KeyPressEvent e) KeyPress (Event e)))"
| "dispatchEvent nw xu (KeyReleaseEvent event) =
     (let wid = RedirectKeyGet xu;
          e = (if 0 < wid then event\<lparr>Event := wid\<rparr> else event);
          xu1 = TimeSet xu (Time e)
      in Inr (runCallbacks xu1 (KeyReleaseEvent e) KeyRelease (Event e)))"
| "dispatchEvent nw xu (ButtonPressEvent e) =
     (let xu1 = TimeSet xu (Time e)
      in Inr (runCallbacks xu1 (ButtonPressEvent e) ButtonPress (Event e)))"
| "dispatchEvent nw xu (ButtonReleaseEvent e) =
     (let xu1 = TimeSet xu (Time e)
      in Inr (runCallbacks xu1 (ButtonReleaseEvent e) ButtonRelease (Event e)))"
| "dispatchEvent nw xu (MotionNotifyEvent event) =
     (case coalesce (Event event) zeroMotion xu of
        Inl f \<Rightarrow> Inl f
      | Inr (laste, xu1) \<Rightarrow>
          (let e = (if Root laste \<noteq> 0
                    then event\<lparr>Time := Time laste,
                               RootX := RootX laste, RootY := RootY laste,
                               EventX := EventX laste, EventY := EventY laste\<rparr>
                    else event);
               xu2 = TimeSet xu1 (Time e)
           in Inr (runCallbacks xu2 (MotionNotifyEvent e) MotionNotify (Event e))))"
| "dispatchEvent nw xu (EnterNotifyEvent t w) =
     (let xu1 = TimeSet xu t
      in Inr (runCallbacks xu1 (EnterNotifyEvent t w) EnterNotify w))"
| "dispatchEvent nw xu (LeaveNotifyEvent t w) =
     (let xu1 = TimeSet xu t
      in Inr (runCallbacks xu1 (LeaveNotifyEvent t w) LeaveNotify w))"
| "dispatchEvent nw xu (FocusInEvent w) =
     Inr (runCallbacks xu (FocusInEvent w) FocusIn w)"
| "dispatchEvent nw xu (FocusOutEvent w) =
     Inr (runCallbacks xu (FocusOutEvent w) FocusOut w)"
| "dispatchEvent nw xu KeymapNotifyEvent =
     Inr (runCallbacks xu KeymapNotifyEvent KeymapNotify nw)"
| "dispatchEvent nw xu (ExposeEvent w) =
     Inr (runCallbacks xu (ExposeEvent w) Expose w)"
| "dispatchEvent nw xu (GraphicsExposureEvent d) =
     Inr (runCallbacks xu (GraphicsExposureEvent d) GraphicsExposure d)"
| "dispatchEvent nw xu (NoExposureEvent d) =
     Inr (runCallbacks xu (NoExposureEvent d) NoExposure d)"
| "dispatchEvent nw xu (VisibilityNotifyEvent w) =
     Inr (runCallbacks xu (VisibilityNotifyEvent w) VisibilityNotify w)"
| "dispatchEvent nw xu (CreateNotifyEvent w) =
     Inr (runCallbacks xu (CreateNotifyEvent w) CreateNotify w)"
| "dispatchEvent nw xu (DestroyNotifyEvent w) =
     Inr (runCallbacks xu (DestroyNotifyEvent w) DestroyNotify w)"
| "dispatchEvent nw xu (UnmapNotifyEvent w) =
     Inr (runCallbacks xu (UnmapNotifyEvent w) UnmapNotify w)"
| "dispatchEvent nw xu (MapNotifyEvent w) =
     Inr (runCallbacks xu (MapNotifyEvent w) MapNotify w)"
| "dispatchEvent nw xu (MapRequestEvent w p) =
     (let xu1 = runCallbacks xu (MapRequestEvent w p) MapRequest w
      in Inr (runCallbacks xu1 (MapRequestEvent w p) MapRequest p))"
| "dispatchEvent nw xu (ReparentNotifyEvent w) =
     Inr (runCallbacks xu (ReparentNotifyEvent w) ReparentNotify w)"
| "dispatchEvent nw xu (ConfigureNotifyEvent w) =
     Inr (runCallbacks xu (ConfigureNotifyEvent w) ConfigureNotify w)"
| "dispatchEvent nw xu (ConfigureRequestEvent w p) =
     (let xu1 = runCallbacks xu (ConfigureRequestEvent w p) ConfigureRequest w
      in Inr (runCallbacks xu1 (ConfigureRequestEvent w p) ConfigureRequest p))"
| "dispatchEvent nw xu (GravityNotifyEvent w) =
     Inr (runCallbacks xu (GravityNotifyEvent w) GravityNotify w)"
| "dispatchEvent nw xu (ResizeRequestEvent w) =
     Inr (runCallbacks xu (ResizeRequestEvent w) ResizeRequest w)"
| "dispatchEvent nw xu (CirculateNotifyEvent w) =
     Inr (runCallbacks xu (CirculateNotifyEvent w) CirculateNotify w)"
| "dispatchEvent nw xu (CirculateRequestEvent w) =
     Inr (runCallbacks xu (CirculateRequestEvent w) CirculateRequest w)"
| "dispatchEvent nw xu (PropertyNotifyEvent t w) =
     (let xu1 = TimeSet xu t
      in Inr (runCallbacks xu1 (PropertyNotifyEvent t w) PropertyNotify w))"
| "dispatchEvent nw xu (SelectionClearEvent t w) =
     (let xu1 = TimeSet xu t
      in Inr (runCallbacks xu1 (SelectionClearEvent t w) SelectionClear w))"
| "dispatchEvent nw xu (SelectionRequestEvent t w) =
     (let xu1 = TimeSet xu t
      in Inr (runCallbacks xu1 (SelectionRequestEvent t w) SelectionRequest w))"
| "dispatchEvent nw xu (SelectionNotifyEvent t w) =
     (let xu1 = TimeSet xu t
      in Inr (runCallbacks xu1 (SelectionNotifyEvent t w) SelectionNotify w))"
| "dispatchEvent nw xu (ColormapNotifyEvent w) =
     Inr (runCallbacks xu (ColormapNotifyEvent w) ColormapNotify w)"
| "dispatchEvent nw xu (ClientMessageEvent w) =
     Inr (runCallbacks xu (ClientMessageEvent w) ClientMessage w)"
| "dispatchEvent nw xu MappingNotifyEvent =
     Inr (runCallbacks xu MappingNotifyEvent MappingNotify nw)"
| "dispatchEvent nw xu (UnsupportedEvent name) =
     Inr (Printf xu (''ERROR: UNSUPPORTED EVENT TYPE: '' @ name))"

text \<open>
  One turn of the loop of \<^verbatim>\<open>processEventQueue\<close>, after its two tests: the ping (when
  the channel \<open>ping\<close> is not nil), the removal of the head, the error handler for an
  error, the fatal exit for an entry with neither error nor event, the type switch
  otherwise.
\<close>

definition processHead :: "Window \<Rightarrow> xutil \<Rightarrow> bool \<Rightarrow> outcome" where
  "processHead nw xu ping =
     (let xu1 = (if ping then sendPing xu else xu) in
      case Dequeue xu1 of
        None \<Rightarrow> Inl (Panic, xu1)
      | Some (ee, xu2) \<Rightarrow>
          (case ee_Err ee of
             Some err \<Rightarrow> Inr (ErrorHandler xu2 err)
           | None \<Rightarrow>
               (case ee_Event ee of
                  None \<Rightarrow> Inl (Fatal ''BUG: Expected an event but got nil.'', xu2)
                | Some ev \<Rightarrow> dispatchEvent nw xu2 ev)))"

lemma coalesce_pending:
  assumes "coalesce w l xu = Inr (l', xu')"
  shows "pending xu' \<le> pending xu"
proof -
  from coalesce_result [of w l xu] assms obtain cs where
    c: "Conn xu = cs @ Conn xu'" and
    q: "Evqueue xu' = filter (\<lambda>ee. \<not> matches w ee) (Evqueue xu @ entriesOf cs)"
    by auto
  have "length (Evqueue xu') \<le> length (Evqueue xu) + length (entriesOf cs)"
    unfolding q using length_filter_le [of _ "Evqueue xu @ entriesOf cs"] by simp
  also have "length (entriesOf cs) \<le> length cs"
    by (simp add: entriesOf_def)
  finally show ?thesis
    using c by (simp add: pending_def)
qed

lemma dispatchEvent_pending:
  "dispatchEvent nw xu ev = Inr xu' \<Longrightarrow> pending xu' \<le> pending xu"
  by (cases ev)
     (auto simp: pending_def runCallbacks_def TimeSet_def Printf_def Let_def
           split: sum.splits dest!: coalesce_pending)

lemma processHead_pending:
  "processHead nw xu ping = Inr xu' \<Longrightarrow> pending xu' < pending xu"
  by (cases "Evqueue xu")
     (auto simp: processHead_def Dequeue_def sendPing_def ErrorHandler_def pending_def Let_def
           split: option.splits if_splits dest!: dispatchEvent_pending)

text \<open>
  \<^verbatim>\<open>processEventQueue\<close>: while the queue is not empty, return when shutting down,
  else take one turn; every turn ends with the next turn, also after \<^verbatim>\<open>continue\<close>.
\<close>

function processEventQueue :: "Window \<Rightarrow> xutil \<Rightarrow> bool \<Rightarrow> outcome" where
  "processEventQueue nw xu ping =
     (if Empty xu then Inr xu
      else if Quitting xu then Inr xu
      else (case processHead nw xu ping of
              Inl f \<Rightarrow> Inl f
            | Inr xu' \<Rightarrow> processEventQueue nw xu' ping))"
  by pat_completeness auto
termination
  by (relation "measure (\<lambda>(nw, xu, ping). pending xu)")
     (auto dest: processHead_pending)

declare processEventQueue.simps [simp del]

section \<open>Notation for the statements\<close>

text \<open>
  A connection at rest with nothing registered, and an entry that holds an event; the
  concrete runs below start from them.
\<close>

definition idle :: xutil where
  "idle = \<lparr>Conn = [], Evqueue = [], Quit = False, Callbacks = (\<lambda>k w. []),
           KeyRedirect = 0, LastTime = 0, Trace = []\<rparr>"

definition entry :: "xevent \<Rightarrow> EventOrError" where
  "entry ev = \<lparr>ee_Event = Some ev, ee_Err = None\<rparr>"

text \<open>
  What \<^verbatim>\<open>runCallbacks\<close> adds to the trace, and what the ping adds when the channel is
  there.
\<close>

definition calls :: "xutil \<Rightarrow> xevent \<Rightarrow> evkind \<Rightarrow> Window \<Rightarrow> action list" where
  "calls xu e k win = map (\<lambda>cb. Called cb k win e) (Callbacks xu k win)"

definition pingOf :: "bool \<Rightarrow> action list" where
  "pingOf ping = (if ping then [Ping] else [])"

section \<open>What one dispatch does\<close>

text \<open>
  The assignment of the five fields in the motion case, and the event that the motion
  case hands to the callbacks when the scan removed the entries \<open>reps\<close>, in this order:
  the source compares the \<^verbatim>\<open>Root\<close> of the last payload with zero.
\<close>

definition overwrite :: "input_event \<Rightarrow> input_event \<Rightarrow> input_event" where
  "overwrite e l = e\<lparr>Time := Time l, RootX := RootX l, RootY := RootY l,
                      EventX := EventX l, EventY := EventY l\<rparr>"

definition carried :: "input_event \<Rightarrow> EventOrError list \<Rightarrow> input_event" where
  "carried e reps =
     (if reps = [] then e
      else if Root (lastMotion zeroMotion (last reps)) \<noteq> 0
           then overwrite e (lastMotion zeroMotion (last reps))
           else e)"

lemma foldl_lastMotion:
  "filter (matches w) reps = reps \<Longrightarrow>
     foldl lastMotion l reps = (if reps = [] then l else lastMotion l0 (last reps))"
proof (induction reps arbitrary: l rule: rev_induct)
  case Nil
  then show ?case by simp
next
  case (snoc x xs)
  from snoc.prems have "matches w x"
    by (metis filter_id_conv in_set_conv_decomp)
  then show ?case
    by (auto simp: lastMotion_def matches_def split: option.splits)
qed

lemma Event_carried [simp]: "Event (carried e reps) = Event e"
  by (simp add: carried_def overwrite_def)

lemma carried_Nil [simp]: "carried e [] = e"
  by (simp add: carried_def)

lemma motion_dispatch:
  "\<exists>xu' cs rm. dispatchEvent nw xu (MotionNotifyEvent e) = Inr xu' \<and>
     Conn xu = cs @ Conn xu' \<and>
     Evqueue xu' = filter (\<lambda>ee. \<not> matches (Event e) ee) (Evqueue xu @ entriesOf cs) \<and>
     LastTime xu' = Time (carried e (filter (matches (Event e)) (Evqueue xu @ entriesOf cs))) \<and>
     Trace xu' = Trace xu @ rm @
        calls xu (MotionNotifyEvent (carried e (filter (matches (Event e)) (Evqueue xu @ entriesOf cs))))
          MotionNotify (Event e) \<and>
     map removedAt rm = map Some (filter (matches (Event e)) (Evqueue xu @ entriesOf cs)) \<and>
     Quit xu' = Quit xu \<and> Callbacks xu' = Callbacks xu \<and> KeyRedirect xu' = KeyRedirect xu"
proof -
  from coalesce_result [of "Event e" zeroMotion xu] obtain l' xu1 cs rm where
    co: "coalesce (Event e) zeroMotion xu = Inr (l', xu1)" and
    conn: "Conn xu = cs @ Conn xu1" and
    q: "Evqueue xu1 = filter (\<lambda>ee. \<not> matches (Event e) ee) (Evqueue xu @ entriesOf cs)" and
    l: "l' = foldl lastMotion zeroMotion (filter (matches (Event e)) (Evqueue xu @ entriesOf cs))" and
    t: "Trace xu1 = Trace xu @ rm" and
    rm: "map removedAt rm = map Some (filter (matches (Event e)) (Evqueue xu @ entriesOf cs))" and
    fr: "xu1 = xu\<lparr>Conn := Conn xu1, Evqueue := Evqueue xu1, Trace := Trace xu1\<rparr>"
    by blast
  let ?reps = "filter (matches (Event e)) (Evqueue xu @ entriesOf cs)"
  have l2: "l' = (if ?reps = [] then zeroMotion else lastMotion zeroMotion (last ?reps))"
    unfolding l by (rule foldl_lastMotion [of "Event e"]) simp
  have z: "Root zeroMotion = 0" by (simp add: zeroMotion_def)
  have e': "(if Root l' \<noteq> 0 then e\<lparr>Time := Time l', RootX := RootX l', RootY := RootY l',
                 EventX := EventX l', EventY := EventY l'\<rparr> else e) = carried e ?reps"
    using l2 z by (simp add: carried_def overwrite_def)
  have cb: "Callbacks xu1 = Callbacks xu" and qt: "Quit xu1 = Quit xu"
    and kr: "KeyRedirect xu1 = KeyRedirect xu"
    by (subst fr, simp)+
  let ?xu' = "runCallbacks (TimeSet xu1 (Time (carried e ?reps)))
                (MotionNotifyEvent (carried e ?reps)) MotionNotify (Event e)"
  have d: "dispatchEvent nw xu (MotionNotifyEvent e) = Inr ?xu'"
    using co e' by (simp add: Let_def)
  show ?thesis
    apply (rule exI [of _ ?xu'], rule exI [of _ cs], rule exI [of _ rm])
    using d conn q t rm cb qt kr
    by (simp add: runCallbacks_def TimeSet_def calls_def)
qed


text \<open>
  Trace actions of the head of a turn (the ping and the removal of the head), and calls
  of callbacks.
\<close>

fun headAction :: "action \<Rightarrow> bool" where
  "headAction Ping = True"
| "headAction (Dequeued ee) = True"
| "headAction _ = False"

fun isCalled :: "action \<Rightarrow> bool" where
  "isCalled (Called cb k w e) = True"
| "isCalled _ = False"

lemma headAction_calls [simp]: "filter headAction (calls xu e k w) = []"
  by (simp add: calls_def)

lemma isCalled_calls [simp]: "filter isCalled (calls xu e k w) = calls xu e k w"
  by (simp add: calls_def)

lemma removals_quiet:
  "map removedAt rm = map Some xs \<Longrightarrow> filter headAction rm = [] \<and> filter isCalled rm = []"
proof (induction rm arbitrary: xs)
  case Nil
  then show ?case by simp
next
  case (Cons a rm)
  then obtain y ys where xs: "xs = y # ys" by (cases xs) auto
  with Cons.prems have "removedAt a = Some y" "map removedAt rm = map Some ys" by auto
  with Cons.IH [of ys] show ?case by (cases a) auto
qed

text \<open>
  Concrete values for the runs below: a registry with one callback per target, named by
  the number of the target, and input events for the window 5.
\<close>

definition perWindow :: "evkind \<Rightarrow> Window \<Rightarrow> nat list" where
  "perWindow k w = [unat w]"

definition keyEv :: input_event where
  "keyEv = \<lparr>Time = 11, Root = 1, Event = 5, RootX = 0, RootY = 0, EventX = 0, EventY = 0\<rparr>"

definition pointer :: "Timestamp \<Rightarrow> Window \<Rightarrow> 16 word \<Rightarrow> input_event" where
  "pointer t r x = \<lparr>Time = t, Root = r, Event = 5, RootX = x, RootY = x + 1,
                     EventX = x + 2, EventY = x + 3\<rparr>"

text \<open>The equations that evaluate a run on a concrete state.\<close>

lemmas run_simps =
  processEventQueue.simps coalesce.simps ReadLoop.simps Read_def Sync_def Peek_def
  PollForEvent_def Enqueue_def Empty_def Quitting_def Dequeue_def DequeueAt_def
  processHead_def sendPing_def ErrorHandler_def runCallbacks_def TimeSet_def Printf_def
  RedirectKeyGet_def zeroMotion_def Let_def

text \<open>
  The trace at the end of a run, whether it returned or not, what the run added to the
  trace of the state it started from, and the two groups of
  event values that the statement on double dispatch sets apart.
\<close>

definition traceOf :: "outcome \<Rightarrow> action list" where
  "traceOf r = (case r of Inl f \<Rightarrow> Trace (snd f) | Inr xu' \<Rightarrow> Trace xu')"

definition added :: "xutil \<Rightarrow> outcome \<Rightarrow> action list" where
  "added xu r = drop (length (Trace xu)) (traceOf r)"

fun isRequest :: "xevent \<Rightarrow> bool" where
  "isRequest (MapRequestEvent w p) = True"
| "isRequest (ConfigureRequestEvent w p) = True"
| "isRequest _ = False"

fun isUnsupported :: "xevent \<Rightarrow> bool" where
  "isUnsupported (UnsupportedEvent name) = True"
| "isUnsupported _ = False"

text \<open>
  Apart from the two request events and the unsupported ones, the calls of one dispatch
  are those of one lookup, under a kind and a target that do not depend on the registry.
\<close>

lemma single_target:
  assumes "\<not> isRequest ev" and "\<not> isUnsupported ev"
  shows "\<exists>k w. \<forall>reg. \<exists>e'.
           filter isCalled (added xu (dispatchEvent nw (xu\<lparr>Callbacks := reg\<rparr>) ev))
             = map (\<lambda>cb. Called cb k w e') (reg k w)"
proof (cases ev)
  case (MotionNotifyEvent e)
  have "\<exists>e'. filter isCalled (added xu (dispatchEvent nw (xu\<lparr>Callbacks := reg\<rparr>) (MotionNotifyEvent e)))
             = map (\<lambda>cb. Called cb MotionNotify (Event e) e') (reg MotionNotify (Event e))" for reg
  proof -
    from motion_dispatch [of nw "xu\<lparr>Callbacks := reg\<rparr>" e] obtain xu' e' rm xs where
      d: "dispatchEvent nw (xu\<lparr>Callbacks := reg\<rparr>) (MotionNotifyEvent e) = Inr xu'" and
      t: "Trace xu' = Trace (xu\<lparr>Callbacks := reg\<rparr>) @ rm @
            calls (xu\<lparr>Callbacks := reg\<rparr>) e' MotionNotify (Event e)" and
      r: "map removedAt rm = map Some xs"
      by blast
    have "filter isCalled rm = []"
      using removals_quiet [OF r] by blast
    then have "filter isCalled (added xu (Inr xu'))
                 = map (\<lambda>cb. Called cb MotionNotify (Event e) e') (reg MotionNotify (Event e))"
      using t by (simp add: added_def traceOf_def calls_def)
    then show ?thesis
      unfolding d by blast
  qed
  then show ?thesis
    unfolding MotionNotifyEvent by blast
next
  case (KeyPressEvent e)
  show ?thesis
    unfolding KeyPressEvent
    by (cases "0 < KeyRedirect xu")
       (auto simp: added_def traceOf_def runCallbacks_def TimeSet_def RedirectKeyGet_def Let_def)
next
  case (KeyReleaseEvent e)
  show ?thesis
    unfolding KeyReleaseEvent
    by (cases "0 < KeyRedirect xu")
       (auto simp: added_def traceOf_def runCallbacks_def TimeSet_def RedirectKeyGet_def Let_def)
qed (use assms in \<open>auto simp: added_def traceOf_def runCallbacks_def TimeSet_def Let_def\<close>)

section \<open>What one turn of the loop does\<close>

text \<open>
  The trace of one turn with a ping channel: the ping, the removal of the head entry
  \<open>fst p\<close>, and the rest \<open>snd p\<close> of the turn.
\<close>

definition turn :: "EventOrError \<times> action list \<Rightarrow> action list" where
  "turn p = Ping # Dequeued (fst p) # snd p"

text \<open>
  Calls of user code (the error handler and the callbacks), and an entry that holds an
  error or an event.
\<close>

fun invocation :: "action \<Rightarrow> bool" where
  "invocation (ErrorHandled err) = True"
| "invocation (Called cb k w e) = True"
| "invocation _ = False"

definition wellFormed :: "EventOrError \<Rightarrow> bool" where
  "wellFormed ee = (ee_Err ee \<noteq> None \<or> ee_Event ee \<noteq> None)"

text \<open>
  The queue as section 8 of the specification describes its dispatch: the entries in
  the order they were enqueued, where a motion-notify entry (without an error) takes
  the place of all later motion-notify entries for the same target and carries the time
  and position of the last of them; \<open>carried\<close> has the guard of the source on the
  \<^verbatim>\<open>Root\<close> field of that last entry.
\<close>

fun collapse :: "EventOrError list \<Rightarrow> EventOrError list" where
  "collapse [] = []"
| "collapse (ee # q) =
     (case (if ee_Err ee = None then asMotionNotify (ee_Event ee) else None) of
        None \<Rightarrow> ee # collapse q
      | Some e \<Rightarrow>
          entry (MotionNotifyEvent (carried e (filter (matches (Event e)) q)))
            # collapse (filter (\<lambda>x. \<not> matches (Event e) x) q))"

text \<open>
  The calls that one turn makes for an entry which is alone in the queue of a
  connection at rest, with the registry \<open>reg\<close> and the key redirection \<open>wid\<close>.
\<close>

definition solo :: "Window \<Rightarrow> (evkind \<Rightarrow> Window \<Rightarrow> nat list) \<Rightarrow> Window \<Rightarrow> EventOrError \<Rightarrow> action list" where
  "solo nw reg wid ee =
     filter invocation
       (traceOf (processHead nw (idle\<lparr>Callbacks := reg, KeyRedirect := wid, Evqueue := [ee]\<rparr>) False))"

lemma invocation_calls [simp]: "filter invocation (calls xu e k w) = calls xu e k w"
  by (simp add: calls_def)

lemma removals_silent:
  "map removedAt rm = map Some xs \<Longrightarrow> filter invocation rm = []"
proof (induction rm arbitrary: xs)
  case Nil
  then show ?case by simp
next
  case (Cons a rm)
  then obtain y ys where xs: "xs = y # ys" by (cases xs) auto
  with Cons.prems have "removedAt a = Some y" "map removedAt rm = map Some ys" by auto
  with Cons.IH [of ys] show ?case by (cases a) auto
qed

lemma solo_error:
  "ee_Err ee = Some err \<Longrightarrow> solo nw reg wid ee = [ErrorHandled err]"
  by (simp add: solo_def processHead_def Dequeue_def idle_def traceOf_def ErrorHandler_def)

lemma solo_motion:
  "solo nw reg wid (entry (MotionNotifyEvent e))
     = map (\<lambda>cb. Called cb MotionNotify (Event e) (MotionNotifyEvent e)) (reg MotionNotify (Event e))"
  by (simp add: solo_def traceOf_def idle_def entry_def run_simps)

lemma solo_other:
  assumes "asMotionNotify (Some ev) = None" and "ee_Err ee = None" and "ee_Event ee = Some ev"
  shows "\<exists>xu'. dispatchEvent nw xu ev = Inr xu' \<and> Conn xu' = Conn xu \<and>
           Evqueue xu' = Evqueue xu \<and> Quit xu' = Quit xu \<and> Callbacks xu' = Callbacks xu \<and>
           KeyRedirect xu' = KeyRedirect xu \<and>
           filter invocation (Trace xu')
             = filter invocation (Trace xu) @ solo nw (Callbacks xu) (KeyRedirect xu) ee"
  using assms
  by (cases ev)
     (simp_all add: solo_def processHead_def Dequeue_def idle_def traceOf_def runCallbacks_def
        TimeSet_def Printf_def RedirectKeyGet_def Let_def)


lemma entriesOf_prefix:
  "entriesOf c = [] \<Longrightarrow> c = cs @ c' \<Longrightarrow> entriesOf cs = [] \<and> entriesOf c' = []"
  by (simp add: entriesOf_def)

lemma processHead_quiet:
  assumes c: "entriesOf (Conn xu) = []" and q: "Evqueue xu = ee # q" and w: "wellFormed ee"
  shows "\<exists>xu' h q'. processHead nw xu ping = Inr xu' \<and> collapse (ee # q) = h # collapse q' \<and>
           Evqueue xu' = q' \<and> set q' \<subseteq> set q \<and> entriesOf (Conn xu') = [] \<and>
           Quit xu' = Quit xu \<and> Callbacks xu' = Callbacks xu \<and>
           KeyRedirect xu' = KeyRedirect xu \<and>
           filter invocation (Trace xu')
             = filter invocation (Trace xu) @ solo nw (Callbacks xu) (KeyRedirect xu) h"
proof -
  let ?xu1 = "if ping then sendPing xu else xu"
  let ?xu2 = "?xu1\<lparr>Evqueue := q, Trace := Trace ?xu1 @ [Dequeued ee]\<rparr>"
  have dq: "Dequeue ?xu1 = Some (ee, ?xu2)"
    using q by (simp add: Dequeue_def sendPing_def)
  have t2: "filter invocation (Trace ?xu2) = filter invocation (Trace xu)"
    by (simp add: sendPing_def)
  have f2: "Conn ?xu2 = Conn xu" "Evqueue ?xu2 = q" "Quit ?xu2 = Quit xu"
    "Callbacks ?xu2 = Callbacks xu" "KeyRedirect ?xu2 = KeyRedirect xu"
    by (simp_all add: sendPing_def)
  show ?thesis
  proof (cases "ee_Err ee")
    case (Some err)
    let ?xu' = "ErrorHandler ?xu2 err"
    have "processHead nw xu ping = Inr ?xu'"
      using dq Some by (simp add: processHead_def Let_def)
    moreover have "collapse (ee # q) = ee # collapse q"
      using Some by simp
    moreover have "filter invocation (Trace ?xu')
        = filter invocation (Trace xu) @ solo nw (Callbacks xu) (KeyRedirect xu) ee"
      using t2 by (simp add: solo_error [OF Some] ErrorHandler_def)
    moreover have "Evqueue ?xu' = q" "entriesOf (Conn ?xu') = []" "Quit ?xu' = Quit xu"
      "Callbacks ?xu' = Callbacks xu" "KeyRedirect ?xu' = KeyRedirect xu"
      using c by (simp_all add: ErrorHandler_def sendPing_def)
    ultimately show ?thesis
      by (intro exI [of _ ?xu'] exI [of _ ee] exI [of _ q]) simp
  next
    case None
    with w obtain ev where ev: "ee_Event ee = Some ev"
      by (auto simp: wellFormed_def)
    have ph: "processHead nw xu ping = dispatchEvent nw ?xu2 ev"
      using dq None ev by (simp add: processHead_def Let_def)
    show ?thesis
    proof (cases "asMotionNotify (Some ev)")
      case nm: None
      from solo_other [OF nm None ev, of nw ?xu2] obtain xu' where
        d: "dispatchEvent nw ?xu2 ev = Inr xu'" and
        f: "Conn xu' = Conn ?xu2" "Evqueue xu' = Evqueue ?xu2" "Quit xu' = Quit ?xu2"
           "Callbacks xu' = Callbacks ?xu2" "KeyRedirect xu' = KeyRedirect ?xu2" and
        t: "filter invocation (Trace xu')
              = filter invocation (Trace ?xu2) @ solo nw (Callbacks ?xu2) (KeyRedirect ?xu2) ee"
        by blast
      have col: "collapse (ee # q) = ee # collapse q"
        using None nm ev by simp
      have t': "filter invocation (Trace xu')
              = filter invocation (Trace xu) @ solo nw (Callbacks xu) (KeyRedirect xu) ee"
        using t unfolding t2 f2 .
      show ?thesis
        apply (rule exI [of _ xu'], rule exI [of _ ee], rule exI [of _ q])
        using ph d col t' f c unfolding f2 by simp
    next
      case (Some e)
      then have mev: "ev = MotionNotifyEvent e"
        by (cases ev) simp_all
      from motion_dispatch [of nw ?xu2 e] obtain xu' cs rm where
        d: "dispatchEvent nw ?xu2 (MotionNotifyEvent e) = Inr xu'" and
        cn: "Conn ?xu2 = cs @ Conn xu'" and
        eq: "Evqueue xu' = filter (\<lambda>ee. \<not> matches (Event e) ee) (Evqueue ?xu2 @ entriesOf cs)" and
        t: "Trace xu' = Trace ?xu2 @ rm @
              calls ?xu2 (MotionNotifyEvent (carried e (filter (matches (Event e)) (Evqueue ?xu2 @ entriesOf cs))))
                MotionNotify (Event e)" and
        r: "map removedAt rm = map Some (filter (matches (Event e)) (Evqueue ?xu2 @ entriesOf cs))" and
        f: "Quit xu' = Quit ?xu2" "Callbacks xu' = Callbacks ?xu2" "KeyRedirect xu' = KeyRedirect ?xu2"
        by blast
      from entriesOf_prefix [OF c cn [unfolded f2]] have
        cs: "entriesOf cs = []" and c': "entriesOf (Conn xu') = []" by auto
      let ?e' = "carried e (filter (matches (Event e)) q)"
      have eq': "Evqueue xu' = filter (\<lambda>ee. \<not> matches (Event e) ee) q"
        using eq cs by (simp add: sendPing_def)
      have sil: "filter invocation rm = []"
        using removals_silent [OF r] .
      have "Trace xu' = Trace ?xu2 @ rm @ calls ?xu2 (MotionNotifyEvent ?e') MotionNotify (Event e)"
        using t cs unfolding f2 by simp
      then have "filter invocation (Trace xu') = filter invocation (Trace ?xu2)
                   @ calls ?xu2 (MotionNotifyEvent ?e') MotionNotify (Event e)"
        using sil by simp
      then have t': "filter invocation (Trace xu')
              = filter invocation (Trace xu)
                  @ solo nw (Callbacks xu) (KeyRedirect xu) (entry (MotionNotifyEvent ?e'))"
        unfolding t2 by (simp add: solo_motion calls_def sendPing_def)
      have col: "collapse (ee # q)
                   = entry (MotionNotifyEvent ?e') # collapse (filter (\<lambda>x. \<not> matches (Event e) x) q)"
        using None ev mev by simp
      show ?thesis
        apply (rule exI [of _ xu'], rule exI [of _ "entry (MotionNotifyEvent ?e')"],
               rule exI [of _ "filter (\<lambda>x. \<not> matches (Event e) x) q"])
        using ph d col t' f c' eq' unfolding f2 mev by simp
    qed
  qed
qed

text \<open>
  A call of a callback that is registered for the kind keymap notify or mapping notify
  under a target other than \<open>nw\<close>; no dispatch, no turn and no drain makes one.
\<close>

fun strayCall :: "Window \<Rightarrow> action \<Rightarrow> bool" where
  "strayCall nw (Called cb k w e) = ((k = KeymapNotify \<or> k = MappingNotify) \<and> w \<noteq> nw)"
| "strayCall nw _ = False"

lemma removals_not_stray:
  "map removedAt rm = map Some xs \<Longrightarrow> filter (strayCall nw) rm = []"
proof (induction rm arbitrary: xs)
  case Nil
  then show ?case by simp
next
  case (Cons a rm)
  then obtain y ys where xs: "xs = y # ys" by (cases xs) auto
  with Cons.prems have "removedAt a = Some y" "map removedAt rm = map Some ys" by auto
  with Cons.IH [of ys] show ?case by (cases a) auto
qed

lemma dispatchEvent_stray:
  "\<exists>xu' rest. dispatchEvent nw xu ev = Inr xu' \<and> Trace xu' = Trace xu @ rest \<and>
     filter (strayCall nw) rest = []"
proof (cases ev)
  case (MotionNotifyEvent e)
  from motion_dispatch [of nw xu e] obtain xu' e' rm xs where
    d: "dispatchEvent nw xu (MotionNotifyEvent e) = Inr xu'" and
    t: "Trace xu' = Trace xu @ rm @ calls xu e' MotionNotify (Event e)" and
    r: "map removedAt rm = map Some xs"
    by blast
  have "filter (strayCall nw) (rm @ calls xu e' MotionNotify (Event e)) = []"
    using removals_not_stray [OF r, of nw] by (simp add: calls_def)
  then show ?thesis
    unfolding MotionNotifyEvent using d t by blast
qed (simp_all add: runCallbacks_def TimeSet_def Printf_def Let_def)

lemma processHead_stray:
  "\<exists>rest. traceOf (processHead nw xu ping) = Trace xu @ rest \<and> filter (strayCall nw) rest = []"
proof (cases "Evqueue xu")
  case Nil
  then show ?thesis
    by (intro exI [of _ "pingOf ping"])
       (simp add: processHead_def Dequeue_def traceOf_def sendPing_def pingOf_def)
next
  case (Cons ee q)
  let ?xu1 = "if ping then sendPing xu else xu"
  let ?xu2 = "?xu1\<lparr>Evqueue := q, Trace := Trace ?xu1 @ [Dequeued ee]\<rparr>"
  have dq: "Dequeue ?xu1 = Some (ee, ?xu2)"
    using Cons by (simp add: Dequeue_def sendPing_def)
  have t2: "Trace ?xu2 = Trace xu @ pingOf ping @ [Dequeued ee]"
    by (simp add: sendPing_def pingOf_def)
  show ?thesis
  proof (cases "ee_Err ee")
    case (Some err)
    then have "traceOf (processHead nw xu ping) = Trace ?xu2 @ [ErrorHandled err]"
      using dq by (simp add: processHead_def traceOf_def ErrorHandler_def Let_def)
    then show ?thesis
      unfolding t2 by (intro exI [of _ "pingOf ping @ [Dequeued ee, ErrorHandled err]"])
        (simp add: pingOf_def)
  next
    case None
    show ?thesis
    proof (cases "ee_Event ee")
      case noev: None
      have "traceOf (processHead nw xu ping) = Trace ?xu2"
        using dq None noev by (simp add: processHead_def traceOf_def Let_def)
      then show ?thesis
        unfolding t2 by (intro exI [of _ "pingOf ping @ [Dequeued ee]"]) (simp add: pingOf_def)
    next
      case (Some ev)
      from dispatchEvent_stray [of nw ?xu2 ev] obtain xu' rest where
        d: "dispatchEvent nw ?xu2 ev = Inr xu'" and
        t: "Trace xu' = Trace ?xu2 @ rest" and h: "filter (strayCall nw) rest = []"
        by blast
      have "processHead nw xu ping = Inr xu'"
        using dq None Some d by (simp add: processHead_def Let_def)
      then have "traceOf (processHead nw xu ping) = Trace ?xu2 @ rest"
        using t by (simp add: traceOf_def)
      then show ?thesis
        unfolding t2 using h
        by (intro exI [of _ "pingOf ping @ Dequeued ee # rest"]) (simp add: pingOf_def)
    qed
  qed
qed

lemma drain_stray:
  "\<exists>rest. traceOf (processEventQueue nw xu ping) = Trace xu @ rest \<and>
     filter (strayCall nw) rest = []"
proof (induction nw xu ping rule: processEventQueue.induct)
  case (1 nw xu ping)
  show ?case
  proof (cases "Empty xu \<or> Quitting xu")
    case True
    then have "processEventQueue nw xu ping = Inr xu"
      by (subst processEventQueue.simps) auto
    then show ?thesis
      by (intro exI [of _ "[]"]) (simp add: traceOf_def)
  next
    case False
    from processHead_stray [of nw xu ping] obtain r1 where
      t: "traceOf (processHead nw xu ping) = Trace xu @ r1" and
      h: "filter (strayCall nw) r1 = []"
      by blast
    show ?thesis
    proof (cases "processHead nw xu ping")
      case (Inl f)
      then have "processEventQueue nw xu ping = Inl f"
        using False by (subst processEventQueue.simps) simp
      then have "traceOf (processEventQueue nw xu ping) = Trace xu @ r1"
        using t Inl by (simp add: traceOf_def)
      then show ?thesis
        using h by blast
    next
      case (Inr xu')
      from False have ne: "\<not> Empty xu" and nq: "\<not> Quitting xu" by auto
      from "1.IH" [OF ne nq Inr] obtain r2 where
        t': "traceOf (processEventQueue nw xu' ping) = Trace xu' @ r2" and
        h': "filter (strayCall nw) r2 = []"
        by blast
      have x: "Trace xu' = Trace xu @ r1"
        using t Inr by (simp add: traceOf_def)
      have "processEventQueue nw xu ping = processEventQueue nw xu' ping"
        using False Inr by (subst processEventQueue.simps) simp
      then have "traceOf (processEventQueue nw xu ping) = Trace xu @ (r1 @ r2)"
        using t' x by simp
      then show ?thesis
        using h h' by (intro exI [of _ "r1 @ r2"]) simp
    qed
  qed
qed

text \<open>The state at the end of a run, whether it returned or not.\<close>

definition stateOf :: "outcome \<Rightarrow> xutil" where
  "stateOf r = (case r of Inl f \<Rightarrow> snd f | Inr xu' \<Rightarrow> xu')"

lemma traceOf_stateOf: "traceOf r = Trace (stateOf r)"
  by (simp add: traceOf_def stateOf_def split: sum.splits)

text \<open>
  An event without the fields that the loop may rewrite before it hands the event to
  the callbacks: the \<^verbatim>\<open>Event\<close> field of a key event (redirection), and the time and
  the four coordinates of a motion event (coalescing).
\<close>

fun stripped :: "xevent \<Rightarrow> xevent" where
  "stripped (KeyPressEvent e) = KeyPressEvent (e\<lparr>Event := 0\<rparr>)"
| "stripped (KeyReleaseEvent e) = KeyReleaseEvent (e\<lparr>Event := 0\<rparr>)"
| "stripped (MotionNotifyEvent e) =
     MotionNotifyEvent (e\<lparr>Time := 0, RootX := 0, RootY := 0, EventX := 0, EventY := 0\<rparr>)"
| "stripped ev = ev"

text \<open>
  The actions that may follow the removal of the head entry \<open>ee\<close> within its turn: no
  ping and no removal of a head; the error handler only with the error of \<open>ee\<close>; a
  callback only when \<open>ee\<close> has no error and the event passed is the event of \<open>ee\<close> up
  to the rewritten fields; removals by coalescing and lines of the logger.
\<close>

fun inTurnOf :: "EventOrError \<Rightarrow> action \<Rightarrow> bool" where
  "inTurnOf ee Ping = False"
| "inTurnOf ee (Dequeued x) = False"
| "inTurnOf ee (DequeuedAt i x) = True"
| "inTurnOf ee (ErrorHandled err) = (ee_Err ee = Some err)"
| "inTurnOf ee (Called cb k w ev) =
     (ee_Err ee = None \<and> map_option stripped (ee_Event ee) = Some (stripped ev))"
| "inTurnOf ee (Logged msg) = True"

fun isRemoval :: "action \<Rightarrow> bool" where
  "isRemoval (DequeuedAt i x) = True"
| "isRemoval _ = False"

lemma removals_in_turn:
  "map removedAt rm = map Some xs \<Longrightarrow> list_all (inTurnOf ee) rm \<and> filter isRemoval rm = rm"
proof (induction rm arbitrary: xs)
  case Nil
  then show ?case by simp
next
  case (Cons a rm)
  then obtain y ys where xs: "xs = y # ys" by (cases xs) auto
  with Cons.prems have "removedAt a = Some y" "map removedAt rm = map Some ys" by auto
  with Cons.IH [of ys] show ?case by (cases a) auto
qed

lemma stripped_carried:
  "stripped (MotionNotifyEvent (carried e reps)) = stripped (MotionNotifyEvent e)"
  by (simp add: carried_def overwrite_def)

lemma other_in_turn:
  assumes "asMotionNotify (Some ev) = None" and "ee_Err ee = None" and "ee_Event ee = Some ev"
  shows "\<exists>xu' rest. dispatchEvent nw xu ev = Inr xu' \<and> Trace xu' = Trace xu @ rest \<and>
           list_all (inTurnOf ee) rest \<and> filter isRemoval rest = [] \<and>
           Conn xu' = Conn xu \<and> Evqueue xu' = Evqueue xu \<and> Quit xu' = Quit xu"
  using assms
  by (cases ev)
     (auto simp: runCallbacks_def TimeSet_def Printf_def RedirectKeyGet_def Let_def
        list_all_iff)


lemma processHead_turn:
  assumes q: "Evqueue xu = ee # q"
  shows "\<exists>rest cs. Trace (stateOf (processHead nw xu ping))
                      = Trace xu @ pingOf ping @ Dequeued ee # rest \<and>
           list_all (inTurnOf ee) rest \<and>
           Conn xu = cs @ Conn (stateOf (processHead nw xu ping)) \<and>
           length (filter isRemoval rest) + length (Evqueue (stateOf (processHead nw xu ping)))
             = length q + length (entriesOf cs) \<and>
           Quit (stateOf (processHead nw xu ping)) = Quit xu \<and>
           isl (processHead nw xu ping) = (\<not> wellFormed ee)"
proof -
  let ?xu1 = "if ping then sendPing xu else xu"
  let ?xu2 = "?xu1\<lparr>Evqueue := q, Trace := Trace ?xu1 @ [Dequeued ee]\<rparr>"
  have dq: "Dequeue ?xu1 = Some (ee, ?xu2)"
    using q by (simp add: Dequeue_def sendPing_def)
  have t2: "Trace ?xu2 = Trace xu @ pingOf ping @ [Dequeued ee]"
    by (simp add: sendPing_def pingOf_def)
  have f2: "Conn ?xu2 = Conn xu" "Evqueue ?xu2 = q" "Quit ?xu2 = Quit xu"
    by (simp_all add: sendPing_def)
  show ?thesis
  proof (cases "ee_Err ee")
    case (Some err)
    have "processHead nw xu ping = Inr (ErrorHandler ?xu2 err)"
      using dq Some by (simp add: processHead_def Let_def)
    then show ?thesis
      using Some t2 f2
      by (intro exI [of _ "[ErrorHandled err]"] exI [of _ "[]"])
         (simp add: stateOf_def ErrorHandler_def entriesOf_def wellFormed_def)
  next
    case None
    show ?thesis
    proof (cases "ee_Event ee")
      case noev: None
      have "processHead nw xu ping = Inl (Fatal ''BUG: Expected an event but got nil.'', ?xu2)"
        using dq None noev by (simp add: processHead_def Let_def)
      then show ?thesis
        using None noev t2 f2
        by (intro exI [of _ "[]"] exI [of _ "[]"])
           (simp add: stateOf_def entriesOf_def wellFormed_def)
    next
      case (Some ev)
      have ph: "processHead nw xu ping = dispatchEvent nw ?xu2 ev"
        using dq None Some by (simp add: processHead_def Let_def)
      have wf: "wellFormed ee"
        using Some by (simp add: wellFormed_def)
      show ?thesis
      proof (cases "asMotionNotify (Some ev)")
        case nm: None
        from other_in_turn [OF nm None Some, of nw ?xu2] obtain xu' rest where
          d: "dispatchEvent nw ?xu2 ev = Inr xu'" and
          t: "Trace xu' = Trace ?xu2 @ rest" and
          r: "list_all (inTurnOf ee) rest" "filter isRemoval rest = []" and
          f: "Conn xu' = Conn ?xu2" "Evqueue xu' = Evqueue ?xu2" "Quit xu' = Quit ?xu2"
          by blast
        have s: "stateOf (processHead nw xu ping) = xu'"
          using ph d by (simp add: stateOf_def)
        show ?thesis
          unfolding ph d using t r f wf unfolding t2 f2
          by (intro exI [of _ rest] exI [of _ "[]"]) (simp add: entriesOf_def stateOf_def)
      next
        case (Some e)
        then have mev: "ev = MotionNotifyEvent e"
          by (cases ev) simp_all
        let ?all = "\<lambda>cs. Evqueue ?xu2 @ entriesOf cs"
        from motion_dispatch [of nw ?xu2 e] obtain xu' cs rm where
          d: "dispatchEvent nw ?xu2 (MotionNotifyEvent e) = Inr xu'" and
          cn: "Conn ?xu2 = cs @ Conn xu'" and
          eq: "Evqueue xu' = filter (\<lambda>ee. \<not> matches (Event e) ee) (?all cs)" and
          t: "Trace xu' = Trace ?xu2 @ rm @
                calls ?xu2 (MotionNotifyEvent (carried e (filter (matches (Event e)) (?all cs))))
                  MotionNotify (Event e)" and
          r: "map removedAt rm = map Some (filter (matches (Event e)) (?all cs))" and
          f: "Quit xu' = Quit ?xu2"
          by blast
        let ?c = "calls ?xu2 (MotionNotifyEvent (carried e (filter (matches (Event e)) (?all cs))))
                    MotionNotify (Event e)"
        have s: "stateOf (processHead nw xu ping) = xu'"
          using ph d mev by (simp add: stateOf_def)
        from removals_in_turn [OF r, of ee] have
          rm1: "list_all (inTurnOf ee) rm" and rm2: "filter isRemoval rm = rm" by auto
        have lrm: "length rm = length (filter (matches (Event e)) (?all cs))"
          using arg_cong [OF r, of length] by simp
        have c1: "list_all (inTurnOf ee) ?c"
          using None \<open>ee_Event ee = Some ev\<close> mev
          by (simp add: calls_def list_all_iff stripped_carried del: stripped.simps)
        have c2: "filter isRemoval ?c = []"
          by (simp add: calls_def)
        have cnt: "length (filter isRemoval (rm @ ?c)) + length (Evqueue xu')
                     = length q + length (entriesOf cs)"
          unfolding eq using rm2 c2 lrm
            sum_length_filter_compl [of "matches (Event e)" "?all cs"]
          by (simp add: sendPing_def)
        have la: "list_all (inTurnOf ee) (rm @ ?c)"
          using rm1 c1 by simp
        have tr: "Trace xu' = Trace xu @ pingOf ping @ Dequeued ee # (rm @ ?c)"
          using t unfolding t2 by simp
        have cn': "Conn xu = cs @ Conn xu'"
          using cn unfolding f2 .
        have qt: "Quit xu' = Quit xu"
          using f unfolding f2 .
        have il: "isl (processHead nw xu ping) = (\<not> wellFormed ee)"
          using ph d mev wf by simp
        show ?thesis
          unfolding s using tr la cn' cnt qt il by blast
      qed
    qed
  qed
qed

section \<open>Shutdown, reading and errors\<close>

text \<open>
  C7. If the shutdown flag is set before a drain of the queue begins, the call returns
  at once: the state is returned as it was, so no entry is dequeued, no callback and no
  error handler runs, and nothing is sent on the ping channel.
\<close>

theorem shutdown_before_drain:
  "Quitting xu \<Longrightarrow> processEventQueue nw xu ping = Inr xu"
  by (subst processEventQueue.simps) simp

theorem shutdown_before_drain_witness:
  "Quitting (idle\<lparr>Evqueue := [entry KeymapNotifyEvent], Quit := True\<rparr>) \<and>
   processEventQueue 0 (idle\<lparr>Evqueue := [entry KeymapNotifyEvent], Quit := True\<rparr>) True
     = Inr (idle\<lparr>Evqueue := [entry KeymapNotifyEvent], Quit := True\<rparr>)"
  using shutdown_before_drain [of "idle\<lparr>Evqueue := [entry KeymapNotifyEvent], Quit := True\<rparr>" 0 True]
  by (simp add: Quitting_def idle_def)

text \<open>
  C8. \<^verbatim>\<open>Read\<close> with \<^verbatim>\<open>block = false\<close>, when the first non-blocking fetch yields
  neither an event nor an error, returns without a failure and leaves the queue as it
  was; only that one fetch result of the connection is used up.
\<close>

theorem Read_nothing_pending:
  "fst (PollForEvent xu) = (None, None) \<Longrightarrow>
     Read xu False = Inr (xu\<lparr>Conn := tl (Conn xu)\<rparr>) \<and>
     Evqueue (xu\<lparr>Conn := tl (Conn xu)\<rparr>) = Evqueue xu"
  by (cases "Conn xu")
     (auto simp: Read_def PollForEvent_def ReadLoop.simps [of xu])

theorem Read_nothing_pending_witness:
  "fst (PollForEvent (idle\<lparr>Evqueue := [entry KeymapNotifyEvent]\<rparr>)) = (None, None) \<and>
   Read (idle\<lparr>Evqueue := [entry KeymapNotifyEvent]\<rparr>) False
     = Inr (idle\<lparr>Evqueue := [entry KeymapNotifyEvent]\<rparr>)"
  using Read_nothing_pending [of "idle\<lparr>Evqueue := [entry KeymapNotifyEvent]\<rparr>"]
  by (simp add: PollForEvent_def idle_def)

text \<open>
  C4. When the head of the queue is an entry with an error and the loop is not shutting
  down, the turn sends the ping (if configured), removes the entry and calls the error
  handler once with that error; it calls no event callback and does not fail. The drain
  goes on with the rest of the queue: its trace is the trace so far, then the ping, the
  removal and the one call of the error handler, then what the drain of the remaining
  queue adds.
\<close>

theorem error_entry_handled:
  assumes "\<not> Quitting xu" and "Evqueue xu = ee # q" and "ee_Err ee = Some err"
  shows "processHead nw xu ping =
           Inr (xu\<lparr>Evqueue := q,
                    Trace := Trace xu @ pingOf ping @ [Dequeued ee, ErrorHandled err]\<rparr>) \<and>
         processEventQueue nw xu ping =
           processEventQueue nw
             (xu\<lparr>Evqueue := q,
                 Trace := Trace xu @ pingOf ping @ [Dequeued ee, ErrorHandled err]\<rparr>) ping \<and>
         traceOf (processEventQueue nw xu ping) =
           Trace xu @ pingOf ping @ [Dequeued ee, ErrorHandled err] @
             added (xu\<lparr>Evqueue := q,
                        Trace := Trace xu @ pingOf ping @ [Dequeued ee, ErrorHandled err]\<rparr>)
               (processEventQueue nw
                  (xu\<lparr>Evqueue := q,
                      Trace := Trace xu @ pingOf ping @ [Dequeued ee, ErrorHandled err]\<rparr>) ping)"
proof -
  let ?xu1 = "xu\<lparr>Evqueue := q,
                  Trace := Trace xu @ pingOf ping @ [Dequeued ee, ErrorHandled err]\<rparr>"
  have ph: "processHead nw xu ping = Inr ?xu1"
    using assms
    by (simp add: processHead_def Dequeue_def sendPing_def ErrorHandler_def pingOf_def)
  have d: "processEventQueue nw xu ping = processEventQueue nw ?xu1 ping"
    using assms ph by (subst processEventQueue.simps) (simp add: Empty_def)
  from drain_stray [of nw ?xu1 ping] obtain rest where
    "traceOf (processEventQueue nw ?xu1 ping) = Trace ?xu1 @ rest"
    by blast
  then have "traceOf (processEventQueue nw ?xu1 ping)
               = Trace ?xu1 @ added ?xu1 (processEventQueue nw ?xu1 ping)"
    by (simp add: added_def)
  then have "traceOf (processEventQueue nw xu ping)
               = Trace xu @ pingOf ping @ [Dequeued ee, ErrorHandled err]
                   @ added ?xu1 (processEventQueue nw ?xu1 ping)"
    unfolding d by simp
  with ph d show ?thesis by blast
qed

theorem error_entry_handled_witness:
  "processHead 0
     (idle\<lparr>Evqueue := [\<lparr>ee_Event = None, ee_Err = Some (XError 3)\<rparr>, entry (ExposeEvent 5)],
           Callbacks := (\<lambda>k w. [7])\<rparr>) True
   = Inr (idle\<lparr>Evqueue := [entry (ExposeEvent 5)], Callbacks := (\<lambda>k w. [7]),
               Trace := [Ping, Dequeued \<lparr>ee_Event = None, ee_Err = Some (XError 3)\<rparr>,
                         ErrorHandled (XError 3)]\<rparr>) \<and>
   processEventQueue 0
     (idle\<lparr>Evqueue := [\<lparr>ee_Event = None, ee_Err = Some (XError 3)\<rparr>, entry (ExposeEvent 5)],
           Callbacks := (\<lambda>k w. [7])\<rparr>) True
   = Inr (idle\<lparr>Callbacks := (\<lambda>k w. [7]),
               Trace := [Ping, Dequeued \<lparr>ee_Event = None, ee_Err = Some (XError 3)\<rparr>,
                         ErrorHandled (XError 3),
                         Ping, Dequeued (entry (ExposeEvent 5)),
                         Called 7 Expose 5 (ExposeEvent 5)]\<rparr>)"
  using error_entry_handled
    [of "idle\<lparr>Evqueue := [\<lparr>ee_Event = None, ee_Err = Some (XError 3)\<rparr>, entry (ExposeEvent 5)],
              Callbacks := (\<lambda>k w. [7])\<rparr>"
        "\<lparr>ee_Event = None, ee_Err = Some (XError 3)\<rparr>"
        "[entry (ExposeEvent 5)]" "XError 3" 0 True]
  by (simp add: idle_def entry_def Quitting_def pingOf_def processEventQueue.simps Empty_def
        processHead_def Dequeue_def sendPing_def runCallbacks_def ErrorHandler_def)

section \<open>Routing\<close>

text \<open>
  C10. Keymap-notify and mapping-notify events are routed under the sentinel
  \<^verbatim>\<open>NoWindow\<close> (the parameter \<open>nw\<close>) and not under a field of the event: the calls
  that their dispatch adds are exactly those of the callbacks registered for the kind
  and \<^verbatim>\<open>NoWindow\<close>. No drain of the queue ever calls a callback that is registered
  for one of these two kinds under another target.
\<close>

theorem sentinel_routing:
  "dispatchEvent nw xu KeymapNotifyEvent =
     Inr (xu\<lparr>Trace := Trace xu @ calls xu KeymapNotifyEvent KeymapNotify nw\<rparr>) \<and>
   dispatchEvent nw xu MappingNotifyEvent =
     Inr (xu\<lparr>Trace := Trace xu @ calls xu MappingNotifyEvent MappingNotify nw\<rparr>) \<and>
   filter (strayCall nw) (added xu (processEventQueue nw xu ping)) = []"
proof -
  from drain_stray [of nw xu ping] have
    "filter (strayCall nw) (added xu (processEventQueue nw xu ping)) = []"
    by (auto simp: added_def)
  then show ?thesis
    by (simp add: runCallbacks_def calls_def)
qed

text \<open>
  C5. While the key redirection lookup yields a positive identifier, a key press or key
  release event has its \<^verbatim>\<open>Event\<close> field set to that identifier and the callbacks
  called are those registered for the redirection target, whatever the original window
  was. Button press and button release events are dispatched under their own
  \<^verbatim>\<open>Event\<close> field, whatever the redirection lookup yields.
\<close>

theorem key_redirection:
  "(0 < RedirectKeyGet xu \<longrightarrow>
      dispatchEvent nw xu (KeyPressEvent e) =
        Inr (xu\<lparr>LastTime := Time e,
                 Trace := Trace xu @
                   calls xu (KeyPressEvent (e\<lparr>Event := RedirectKeyGet xu\<rparr>)) KeyPress
                     (RedirectKeyGet xu)\<rparr>) \<and>
      dispatchEvent nw xu (KeyReleaseEvent e) =
        Inr (xu\<lparr>LastTime := Time e,
                 Trace := Trace xu @
                   calls xu (KeyReleaseEvent (e\<lparr>Event := RedirectKeyGet xu\<rparr>)) KeyRelease
                     (RedirectKeyGet xu)\<rparr>)) \<and>
   dispatchEvent nw xu (ButtonPressEvent e) =
     Inr (xu\<lparr>LastTime := Time e,
              Trace := Trace xu @ calls xu (ButtonPressEvent e) ButtonPress (Event e)\<rparr>) \<and>
   dispatchEvent nw xu (ButtonReleaseEvent e) =
     Inr (xu\<lparr>LastTime := Time e,
              Trace := Trace xu @ calls xu (ButtonReleaseEvent e) ButtonRelease (Event e)\<rparr>)"
  by (simp add: runCallbacks_def calls_def TimeSet_def RedirectKeyGet_def Let_def)

theorem key_redirection_witness:
  "0 < RedirectKeyGet (idle\<lparr>KeyRedirect := 9, Callbacks := perWindow\<rparr>) \<and>
   dispatchEvent 0 (idle\<lparr>KeyRedirect := 9, Callbacks := perWindow\<rparr>) (KeyPressEvent keyEv) =
     Inr (idle\<lparr>KeyRedirect := 9, Callbacks := perWindow, LastTime := 11,
               Trace := [Called 9 KeyPress 9 (KeyPressEvent (keyEv\<lparr>Event := 9\<rparr>))]\<rparr>) \<and>
   dispatchEvent 0 (idle\<lparr>KeyRedirect := 9, Callbacks := perWindow\<rparr>) (ButtonPressEvent keyEv) =
     Inr (idle\<lparr>KeyRedirect := 9, Callbacks := perWindow, LastTime := 11,
               Trace := [Called 5 ButtonPress 5 (ButtonPressEvent keyEv)]\<rparr>)"
  using key_redirection [of "idle\<lparr>KeyRedirect := 9, Callbacks := perWindow\<rparr>" 0 keyEv]
  by (simp add: idle_def keyEv_def perWindow_def calls_def RedirectKeyGet_def)

text \<open>
  C6. A map-request and a configure-request event run the callbacks registered for the
  subject window and then those registered for its parent. Every other supported event
  runs the callbacks of exactly one kind and target, the same for every registry.
\<close>

theorem request_double_dispatch:
  "dispatchEvent nw xu (MapRequestEvent w p) =
     Inr (xu\<lparr>Trace := Trace xu @ calls xu (MapRequestEvent w p) MapRequest w
                                @ calls xu (MapRequestEvent w p) MapRequest p\<rparr>) \<and>
   dispatchEvent nw xu (ConfigureRequestEvent w p) =
     Inr (xu\<lparr>Trace := Trace xu @ calls xu (ConfigureRequestEvent w p) ConfigureRequest w
                                @ calls xu (ConfigureRequestEvent w p) ConfigureRequest p\<rparr>) \<and>
   (\<not> isRequest ev \<and> \<not> isUnsupported ev \<longrightarrow>
      (\<exists>k t. \<forall>reg. \<exists>e'.
         filter isCalled (added xu (dispatchEvent nw (xu\<lparr>Callbacks := reg\<rparr>) ev))
           = map (\<lambda>cb. Called cb k t e') (reg k t)))"
  using single_target [of ev xu nw]
  by (simp add: runCallbacks_def calls_def)

theorem request_double_dispatch_witness:
  "dispatchEvent 0 (idle\<lparr>Callbacks := perWindow\<rparr>) (MapRequestEvent 5 6) =
     Inr (idle\<lparr>Callbacks := perWindow,
               Trace := [Called 5 MapRequest 5 (MapRequestEvent 5 6),
                         Called 6 MapRequest 6 (MapRequestEvent 5 6)]\<rparr>) \<and>
   (\<exists>k t. \<forall>reg. \<exists>e'.
      filter isCalled (added (idle\<lparr>Callbacks := perWindow\<rparr>)
         (dispatchEvent 0 (idle\<lparr>Callbacks := perWindow, Callbacks := reg\<rparr>) (ExposeEvent 5)))
        = map (\<lambda>cb. Called cb k t e') (reg k t))"
  using request_double_dispatch [of 0 "idle\<lparr>Callbacks := perWindow\<rparr>" 5 6 "ExposeEvent 5"]
  by (simp add: idle_def perWindow_def calls_def)

section \<open>Motion coalescing\<close>

text \<open>
  C9. The coalescing loop for the window \<open>w\<close> always returns. With \<open>cs\<close> the fetch
  results it read from the connection, the entries it removed (in the order of removal)
  are exactly the entries of the queue and of the arrivals that are motion-notify events
  for \<open>w\<close> without an error; the queue it leaves holds all other entries (errors, other
  kinds, motion for other targets) in their original order.
\<close>

theorem coalesce_removes_only_matches:
  "\<exists>l' xu' cs rm. coalesce w l xu = Inr (l', xu') \<and> Conn xu = cs @ Conn xu' \<and>
     Evqueue xu' = filter (\<lambda>ee. \<not> matches w ee) (Evqueue xu @ entriesOf cs) \<and>
     Trace xu' = Trace xu @ rm \<and>
     map removedAt rm = map Some (filter (matches w) (Evqueue xu @ entriesOf cs))"
  using coalesce_result [of w l xu] by blast

text \<open>
  C1, as the specification states it, fails when the last replacement found has a
  \<^verbatim>\<open>Root\<close> field of zero: the loop removes the replacement (time 2, position 20)
  and the callback receives the dequeued event with its own time 1 and position 10.
\<close>

theorem motion_zero_root_counterexample:
  "dispatchEvent 0
     (idle\<lparr>Evqueue := [entry (MotionNotifyEvent (pointer 2 0 20))], Callbacks := perWindow\<rparr>)
     (MotionNotifyEvent (pointer 1 7 10))
   = Inr (idle\<lparr>Callbacks := perWindow, LastTime := 1,
               Trace := [DequeuedAt 0 (entry (MotionNotifyEvent (pointer 2 0 20))),
                         Called 5 MotionNotify 5 (MotionNotifyEvent (pointer 1 7 10))]\<rparr>)"
  by (simp add: run_simps idle_def entry_def pointer_def perWindow_def)

text \<open>
  C1, amended. For a dequeued motion-notify event \<open>e\<close>, let \<open>reps\<close> be the replacements
  that the coalescing loop removed. If there is at least one and the last one has a
  non-zero \<^verbatim>\<open>Root\<close> field, then the time, root X/Y and event X/Y of \<open>e\<close> are
  overwritten with those of the last replacement before \<open>e\<close> is dispatched (the
  connection time is set to the new time, and the callbacks of the window of \<open>e\<close>
  receive the overwritten event); otherwise \<open>e\<close> is dispatched as it was dequeued.
\<close>

theorem motion_overwrite:
  "\<exists>xu' cs rm. dispatchEvent nw xu (MotionNotifyEvent e) = Inr xu' \<and>
     Conn xu = cs @ Conn xu' \<and>
     (let reps = filter (matches (Event e)) (Evqueue xu @ entriesOf cs);
          e' = (if reps \<noteq> [] \<and> Root (lastMotion zeroMotion (last reps)) \<noteq> 0
                then overwrite e (lastMotion zeroMotion (last reps)) else e)
      in map removedAt rm = map Some reps \<and> LastTime xu' = Time e' \<and>
         Trace xu' = Trace xu @ rm @ calls xu (MotionNotifyEvent e') MotionNotify (Event e))"
proof -
  from motion_dispatch [of nw xu e] obtain xu' cs rm where
    d: "dispatchEvent nw xu (MotionNotifyEvent e) = Inr xu'" and
    c: "Conn xu = cs @ Conn xu'" and
    l: "LastTime xu' = Time (carried e (filter (matches (Event e)) (Evqueue xu @ entriesOf cs)))" and
    t: "Trace xu' = Trace xu @ rm @
          calls xu (MotionNotifyEvent (carried e (filter (matches (Event e)) (Evqueue xu @ entriesOf cs))))
            MotionNotify (Event e)" and
    r: "map removedAt rm = map Some (filter (matches (Event e)) (Evqueue xu @ entriesOf cs))"
    by blast
  have e': "carried e reps = (if reps \<noteq> [] \<and> Root (lastMotion zeroMotion (last reps)) \<noteq> 0
                then overwrite e (lastMotion zeroMotion (last reps)) else e)" for reps
    by (simp add: carried_def)
  show ?thesis
    apply (rule exI [of _ xu'], rule exI [of _ cs], rule exI [of _ rm])
    using d c l t r unfolding e' Let_def by blast
qed

section \<open>The ping\<close>

text \<open>
  C3, as the specification states it, fails: an entry that coalescing removes from the
  queue gets no ping. Two motion-notify entries for one window leave the queue, and one
  ping is sent.
\<close>

theorem ping_not_per_removed_entry:
  "processEventQueue 0
     (idle\<lparr>Evqueue := [entry (MotionNotifyEvent (pointer 1 7 10)),
                       entry (MotionNotifyEvent (pointer 2 7 20))],
           Callbacks := perWindow\<rparr>) True
   = Inr (idle\<lparr>Callbacks := perWindow, LastTime := 2,
               Trace := [Ping, Dequeued (entry (MotionNotifyEvent (pointer 1 7 10))),
                         DequeuedAt 0 (entry (MotionNotifyEvent (pointer 2 7 20))),
                         Called 5 MotionNotify 5 (MotionNotifyEvent (pointer 2 7 20))]\<rparr>)"
  by (simp add: run_simps idle_def entry_def pointer_def perWindow_def)

text \<open>
  C3, amended. With a ping channel, the trace that a drain adds is a sequence of turns,
  one per entry removed from the head of the queue. Each turn is one ping, then the
  removal of the head entry, then the rest of the turn, and every action of the rest
  belongs to that entry: no further ping, no removal of a head, the error handler only
  with the error of the entry, callbacks only with the event of the entry. So exactly
  one ping is sent per entry that the loop dequeues at the head, before the entry is
  dequeued and before any of that entry's callbacks run. Entries removed by coalescing
  get none: with \<open>cs\<close> the fetch results read during the drain, the entries of the
  queue and of the arrivals are the heads of the turns, the entries removed by
  coalescing and the entries left in the queue. Unless the loop is shutting down, the
  drain either returns with an empty queue or ends in the fatal exit on a last head
  entry that holds neither an error nor an event.
\<close>

theorem ping_before_head_removal:
  "\<exists>turns cs.
     traceOf (processEventQueue nw xu True) = Trace xu @ concat (map turn turns) \<and>
     list_all (\<lambda>p. list_all (inTurnOf (fst p)) (snd p)) turns \<and>
     Conn xu = cs @ Conn (stateOf (processEventQueue nw xu True)) \<and>
     length turns + length (filter isRemoval (concat (map snd turns)))
         + length (Evqueue (stateOf (processEventQueue nw xu True)))
       = length (Evqueue xu) + length (entriesOf cs) \<and>
     (Quitting xu \<or>
      (isl (processEventQueue nw xu True) \<and> turns \<noteq> [] \<and> \<not> wellFormed (fst (last turns))) \<or>
      (\<not> isl (processEventQueue nw xu True) \<and>
         Evqueue (stateOf (processEventQueue nw xu True)) = []))"
proof (induction nw xu "True" rule: processEventQueue.induct)
  case (1 nw xu)
  show ?case
  proof (cases "Empty xu \<or> Quitting xu")
    case True
    then have "processEventQueue nw xu True = Inr xu"
      by (subst processEventQueue.simps) auto
    with True show ?thesis
      by (intro exI [of _ "[]"])
         (auto simp: traceOf_def stateOf_def entriesOf_def Empty_def)
  next
    case False
    then have ne: "\<not> Empty xu" and nq: "\<not> Quitting xu" by auto
    from ne obtain ee q where q: "Evqueue xu = ee # q"
      by (cases "Evqueue xu") (auto simp: Empty_def)
    let ?s1 = "stateOf (processHead nw xu True)"
    from processHead_turn [OF q, of nw True] obtain rest cs1 where
      t: "Trace ?s1 = Trace xu @ Ping # Dequeued ee # rest" and
      r: "list_all (inTurnOf ee) rest" and
      c: "Conn xu = cs1 @ Conn ?s1" and
      n: "length (filter isRemoval rest) + length (Evqueue ?s1) = length q + length (entriesOf cs1)" and
      qt: "Quit ?s1 = Quit xu" and
      il: "isl (processHead nw xu True) = (\<not> wellFormed ee)"
      by (auto simp: pingOf_def)
    show ?thesis
    proof (cases "processHead nw xu True")
      case (Inl f)
      then have d: "processEventQueue nw xu True = Inl f"
        using False by (subst processEventQueue.simps) simp
      have s: "stateOf (Inl f) = ?s1"
        using Inl by simp
      have "\<not> wellFormed ee"
        using il Inl by simp
      then show ?thesis
        unfolding d traceOf_stateOf s
        using t r c n q
        by (intro exI [of _ "[(ee, rest)]"] exI [of _ cs1]) (simp add: turn_def)
    next
      case (Inr xu')
      then have s1: "?s1 = xu'"
        by (simp add: stateOf_def)
      have d: "processEventQueue nw xu True = processEventQueue nw xu' True"
        using False Inr by (subst processEventQueue.simps) simp
      let ?fin = "stateOf (processEventQueue nw xu' True)"
      from "1.hyps" [OF ne nq Inr] obtain turns cs where
        t': "traceOf (processEventQueue nw xu' True) = Trace xu' @ concat (map turn turns)" and
        r': "list_all (\<lambda>p. list_all (inTurnOf (fst p)) (snd p)) turns" and
        c': "Conn xu' = cs @ Conn ?fin" and
        n': "length turns + length (filter isRemoval (concat (map snd turns)))
               + length (Evqueue ?fin) = length (Evqueue xu') + length (entriesOf cs)" and
        e': "Quitting xu' \<or>
             (isl (processEventQueue nw xu' True) \<and> turns \<noteq> [] \<and> \<not> wellFormed (fst (last turns))) \<or>
             (\<not> isl (processEventQueue nw xu' True) \<and> Evqueue ?fin = [])"
        by blast
      have nq': "\<not> Quitting xu'"
        using nq qt s1 by (simp add: Quitting_def)
      have A: "traceOf (processEventQueue nw xu' True)
                 = Trace xu @ concat (map turn ((ee, rest) # turns))"
        using t' t s1 by (simp add: turn_def)
      have B: "list_all (\<lambda>p. list_all (inTurnOf (fst p)) (snd p)) ((ee, rest) # turns)"
        using r r' by simp
      have C: "Conn xu = (cs1 @ cs) @ Conn ?fin"
        using c c' s1 by simp
      have D: "length ((ee, rest) # turns)
                 + length (filter isRemoval (concat (map snd ((ee, rest) # turns))))
                 + length (Evqueue ?fin)
               = length (Evqueue xu) + length (entriesOf (cs1 @ cs))"
        using n n' s1 q by (simp add: entriesOf_append)
      have E: "(isl (processEventQueue nw xu' True) \<and> (ee, rest) # turns \<noteq> [] \<and>
                  \<not> wellFormed (fst (last ((ee, rest) # turns)))) \<or>
               (\<not> isl (processEventQueue nw xu' True) \<and> Evqueue ?fin = [])"
        using e' nq' by auto
      show ?thesis
        unfolding d
        apply (rule exI [of _ "(ee, rest) # turns"], rule exI [of _ "cs1 @ cs"])
        using A B C D E by blast
    qed
  qed
qed

theorem ping_before_head_removal_witness:
  "traceOf (processEventQueue 0
     (idle\<lparr>Evqueue := [\<lparr>ee_Event = None, ee_Err = Some (XError 3)\<rparr>,
                       entry (MotionNotifyEvent (pointer 1 7 10)),
                       entry (MotionNotifyEvent (pointer 2 7 20))],
           Callbacks := perWindow\<rparr>) True)
   = concat (map turn
       [(\<lparr>ee_Event = None, ee_Err = Some (XError 3)\<rparr>, [ErrorHandled (XError 3)]),
        (entry (MotionNotifyEvent (pointer 1 7 10)),
         [DequeuedAt 0 (entry (MotionNotifyEvent (pointer 2 7 20))),
          Called 5 MotionNotify 5 (MotionNotifyEvent (pointer 2 7 20))])]) \<and>
   list_all (\<lambda>p. list_all (inTurnOf (fst p)) (snd p))
       [(\<lparr>ee_Event = None, ee_Err = Some (XError 3)\<rparr>, [ErrorHandled (XError 3)]),
        (entry (MotionNotifyEvent (pointer 1 7 10)),
         [DequeuedAt 0 (entry (MotionNotifyEvent (pointer 2 7 20))),
          Called 5 MotionNotify 5 (MotionNotifyEvent (pointer 2 7 20))])] \<and>
   Evqueue (stateOf (processEventQueue 0
     (idle\<lparr>Evqueue := [\<lparr>ee_Event = None, ee_Err = Some (XError 3)\<rparr>,
                       entry (MotionNotifyEvent (pointer 1 7 10)),
                       entry (MotionNotifyEvent (pointer 2 7 20))],
           Callbacks := perWindow\<rparr>) True)) = []"
  using ping_before_head_removal
    [of 0 "idle\<lparr>Evqueue := [\<lparr>ee_Event = None, ee_Err = Some (XError 3)\<rparr>,
                              entry (MotionNotifyEvent (pointer 1 7 10)),
                              entry (MotionNotifyEvent (pointer 2 7 20))],
                  Callbacks := perWindow\<rparr>"]
  by (simp add: run_simps traceOf_def stateOf_def turn_def idle_def entry_def pointer_def
        perWindow_def)

section \<open>The order of dispatch\<close>

text \<open>
  C2, as the specification states it, fails when the last of the motion-notify entries
  has a \<^verbatim>\<open>Root\<close> field of zero: of three entries for one window with positions 10,
  20 and 30, the one callback call carries time 1 and position 10.
\<close>

theorem collapse_zero_root_counterexample:
  "processEventQueue 0
     (idle\<lparr>Evqueue := [entry (MotionNotifyEvent (pointer 1 7 10)),
                       entry (MotionNotifyEvent (pointer 2 7 20)),
                       entry (MotionNotifyEvent (pointer 3 0 30))],
           Callbacks := perWindow\<rparr>) False
   = Inr (idle\<lparr>Callbacks := perWindow, LastTime := 1,
               Trace := [Dequeued (entry (MotionNotifyEvent (pointer 1 7 10))),
                         DequeuedAt 0 (entry (MotionNotifyEvent (pointer 2 7 20))),
                         DequeuedAt 0 (entry (MotionNotifyEvent (pointer 3 0 30))),
                         Called 5 MotionNotify 5 (MotionNotifyEvent (pointer 1 7 10))]\<rparr>)"
  by (simp add: run_simps idle_def entry_def pointer_def perWindow_def)

text \<open>
  C2, amended. When the connection delivers no further entry during the drain, the loop
  is not shutting down and every queued entry holds an error or an event, the drain
  returns with an empty queue and the calls it made (error handler and callbacks) are,
  in the order the entries were enqueued, those of the entries of \<open>collapse\<close>: a
  motion-notify entry absorbs the later motion-notify entries for its target and is
  dispatched once, with the time and position of the last of them if that one has a
  non-zero \<^verbatim>\<open>Root\<close> field and with its own otherwise. The concrete run after the
  theorem is the scenario of the specification: three motion-notify events for one
  window, the last with a non-zero root, give one call that carries the third time and
  position.
\<close>

theorem drain_order:
  "entriesOf (Conn xu) = [] \<Longrightarrow> \<not> Quitting xu \<Longrightarrow> list_all wellFormed (Evqueue xu) \<Longrightarrow>
     \<exists>xu'. processEventQueue nw xu ping = Inr xu' \<and> Evqueue xu' = [] \<and>
       filter invocation (Trace xu')
         = filter invocation (Trace xu)
             @ concat (map (solo nw (Callbacks xu) (KeyRedirect xu)) (collapse (Evqueue xu)))"
proof (induction nw xu ping rule: processEventQueue.induct)
  case (1 nw xu ping)
  show ?case
  proof (cases "Evqueue xu")
    case Nil
    then have "processEventQueue nw xu ping = Inr xu"
      by (subst processEventQueue.simps) (simp add: Empty_def)
    with Nil show ?thesis by simp
  next
    case (Cons ee q)
    then have ne: "\<not> Empty xu" by (simp add: Empty_def)
    from "1.prems"(3) Cons have wf: "wellFormed ee" "list_all wellFormed q" by simp_all
    from processHead_quiet [OF "1.prems"(1) Cons wf(1), of nw ping] obtain xu1 h q' where
      ph: "processHead nw xu ping = Inr xu1" and
      col: "collapse (ee # q) = h # collapse q'" and
      q': "Evqueue xu1 = q'" "set q' \<subseteq> set q" and
      c1: "entriesOf (Conn xu1) = []" and
      f: "Quit xu1 = Quit xu" "Callbacks xu1 = Callbacks xu" "KeyRedirect xu1 = KeyRedirect xu" and
      t: "filter invocation (Trace xu1)
            = filter invocation (Trace xu) @ solo nw (Callbacks xu) (KeyRedirect xu) h"
      by blast
    have nq1: "\<not> Quitting xu1"
      using "1.prems"(2) f by (simp add: Quitting_def)
    have wf1: "list_all wellFormed (Evqueue xu1)"
      using wf(2) q' by (auto simp: list_all_iff)
    from "1.IH" [OF ne "1.prems"(2) ph c1 nq1 wf1] obtain xu' where
      r: "processEventQueue nw xu1 ping = Inr xu'" and e: "Evqueue xu' = []" and
      t': "filter invocation (Trace xu')
             = filter invocation (Trace xu1)
                 @ concat (map (solo nw (Callbacks xu1) (KeyRedirect xu1)) (collapse (Evqueue xu1)))"
      by blast
    have "processEventQueue nw xu ping = Inr xu'"
      using ne "1.prems"(2) ph r by (subst processEventQueue.simps) simp
    moreover have "filter invocation (Trace xu')
         = filter invocation (Trace xu)
             @ concat (map (solo nw (Callbacks xu) (KeyRedirect xu)) (collapse (Evqueue xu)))"
      unfolding t' t f q' Cons col by simp
    ultimately show ?thesis
      using e by blast
  qed
qed

theorem drain_order_witness:
  "\<exists>xu'. processEventQueue 0
            (idle\<lparr>Evqueue := [entry (MotionNotifyEvent (pointer 1 7 10)),
                              entry (MotionNotifyEvent (pointer 2 7 20)),
                              entry (MotionNotifyEvent (pointer 3 7 30))],
                  Callbacks := perWindow\<rparr>) True = Inr xu' \<and>
          Evqueue xu' = [] \<and>
          filter invocation (Trace xu')
            = [Called 5 MotionNotify 5 (MotionNotifyEvent (pointer 3 7 30))]"
  using drain_order
    [of "idle\<lparr>Evqueue := [entry (MotionNotifyEvent (pointer 1 7 10)),
                          entry (MotionNotifyEvent (pointer 2 7 20)),
                          entry (MotionNotifyEvent (pointer 3 7 30))],
              Callbacks := perWindow\<rparr>" 0 True]
  by (simp add: idle_def entry_def pointer_def perWindow_def entriesOf_def Quitting_def
        wellFormed_def matches_def carried_def lastMotion_def overwrite_def zeroMotion_def
        solo_motion [unfolded entry_def])

end
